theory Spec2Isabelle
  imports Main
begin

section \<open>Bytes, errors and the caller's sink\<close>

text \<open>
  Go's \<open>[]byte\<close> and \<open>string\<close> are both sequences of bytes; an Isabelle \<open>char\<close> is one
  byte, so both are modelled as \<open>char list\<close>.
\<close>

type_synonym bytes = "char list"

text \<open>
  The error values of \<open>email.go\<close> (\<open>ErrMissingBoundary\<close>, \<open>ErrMissingContentType\<close>,
  \<open>errClosed\<close>, and the anonymous error of \<open>msgHeaders\<close>), \<open>io.EOF\<close>, and any other error
  that the standard library or the caller's reader or writer hands back.
\<close>

datatype error =
    ErrMissingBoundary
  | ErrMissingContentType
  | errClosed
  | ErrFromEmpty
  | EOF
  | ErrOther string

definition maxLineLength :: int where
  "maxLineLength = 76"

definition lineEnding :: bytes where
  "lineEnding = [CHR 0x0D, CHR 0x0A]"

text \<open>
  The destination of a write is an \<open>io.Writer\<close> of the caller. It is modelled as the bytes
  it has received so far together with the room that is left before it fails: \<open>None\<close> is a
  sink that accepts every write (a \<open>bytes.Buffer\<close>), \<open>Some r\<close> one that accepts \<open>r\<close> more
  bytes and then reports an error with a short count, as the contract of \<open>io.Writer\<close> asks.
\<close>

record sink =
  received :: bytes
  room :: "nat option"

definition sink_Write :: "sink \<Rightarrow> bytes \<Rightarrow> (nat \<times> error option) \<times> sink" where
  "sink_Write s p =
     (case room s of
        None \<Rightarrow> ((length p, None), s\<lparr>received := received s @ p\<rparr>)
      | Some r \<Rightarrow>
          if length p \<le> r
          then ((length p, None), s\<lparr>received := received s @ p, room := Some (r - length p)\<rparr>)
          else ((r, Some (ErrOther ''short write'')),
                s\<lparr>received := received s @ take r p, room := Some 0\<rparr>))"

text \<open>\<open>countWriter\<close>: the destination and the number of bytes counted so far.\<close>

record countWriter =
  count_w :: sink
  count_n :: int

text \<open>
  \<open>countWriter.Write\<close> forwards to the destination and adds the count that comes back.
\<close>

definition countWriter_Write :: "countWriter \<Rightarrow> bytes \<Rightarrow> (nat \<times> error option) \<times> countWriter" where
  "countWriter_Write c p =
     (case sink_Write (count_w c) p of
        ((n, err), s') \<Rightarrow> ((n, err), c\<lparr>count_w := s', count_n := count_n c + int n\<rparr>))"

text \<open>
  \<open>countWriter.WriteString\<close> is \<open>return io.WriteString(c.w, p)\<close>: it forwards to the
  destination and leaves \<open>c.n\<close> as it is.
\<close>

definition countWriter_WriteString :: "countWriter \<Rightarrow> bytes \<Rightarrow> (nat \<times> error option) \<times> countWriter" where
  "countWriter_WriteString c p =
     (case sink_Write (count_w c) p of
        ((n, err), s') \<Rightarrow> ((n, err), c\<lparr>count_w := s'\<rparr>))"

text \<open>
  The interface \<open>io.Writer\<close> as this package uses it: the value behind it is the caller's
  sink, a \<open>*countWriter\<close>, or the part writer that \<open>multipart.Writer.CreatePart\<close> returns,
  which forwards each \<open>Write\<close> to the writer the multipart writer was made for.
  \<open>io.WriteString\<close> calls the method \<open>WriteString\<close> when the writer has one (\<open>*countWriter\<close>
  has, the part writer has not), and \<open>Write\<close> otherwise.
\<close>

datatype writer = ToSink sink | ToCount countWriter | ToPart writer

fun Write :: "writer \<Rightarrow> bytes \<Rightarrow> (nat \<times> error option) \<times> writer" where
  "Write (ToSink s) p = (case sink_Write s p of (r, s') \<Rightarrow> (r, ToSink s'))"
| "Write (ToCount c) p = (case countWriter_Write c p of (r, c') \<Rightarrow> (r, ToCount c'))"
| "Write (ToPart w) p = (case Write w p of (r, w') \<Rightarrow> (r, ToPart w'))"

fun io_WriteString :: "writer \<Rightarrow> bytes \<Rightarrow> (nat \<times> error option) \<times> writer" where
  "io_WriteString (ToSink s) p = (case sink_Write s p of (r, s') \<Rightarrow> (r, ToSink s'))"
| "io_WriteString (ToCount c) p = (case countWriter_WriteString c p of (r, c') \<Rightarrow> (r, ToCount c'))"
| "io_WriteString (ToPart w) p = (case Write w p of (r, w') \<Rightarrow> (r, ToPart w'))"

text \<open>The caller's sink at the end of a chain of writers.\<close>

fun sink_of :: "writer \<Rightarrow> sink" where
  "sink_of (ToSink s) = s"
| "sink_of (ToCount c) = count_w c"
| "sink_of (ToPart w) = sink_of w"

section \<open>The chunked-line writer\<close>

record chunkWriter =
  chunk_w :: writer
  chunk_n :: int
  chunk_err :: "error option"

text \<open>
  The loop of \<open>chunkWriter.Write\<close>, with the running count \<open>n\<close> of the call. \<open>None\<close> is the
  run-time panic of \<open>p[:m]\<close> for a negative \<open>m\<close>.
\<close>

function chunkWriter_loop ::
  "chunkWriter \<Rightarrow> bytes \<Rightarrow> int \<Rightarrow> ((int \<times> error option) \<times> chunkWriter) option" where
  "chunkWriter_loop c p n =
     (if length p = 0 then Some ((n, None), c)
      else
        let m0 = maxLineLength - chunk_n c;
            m1 = (if m0 = 0 then maxLineLength else m0);
            m2 = (if m1 > int (length p) then int (length p) else m1)
        in if m2 < 0 then None
           else
             case Write (chunk_w c) (take (nat m2) p) of
               ((m, err), w1) \<Rightarrow>
                 let n1 = n + int m;
                     c1 = c\<lparr>chunk_w := w1, chunk_n := chunk_n c + int m\<rparr>
                 in (case err of
                       Some e \<Rightarrow> Some ((n1, Some e), c1)
                     | None \<Rightarrow>
                         if chunk_n c1 = maxLineLength
                         then
                           (case io_WriteString w1 lineEnding of
                              ((k, Some e), w2) \<Rightarrow> Some ((n1, Some e), c1\<lparr>chunk_w := w2\<rparr>)
                            | ((k, None), w2) \<Rightarrow>
                                chunkWriter_loop (c1\<lparr>chunk_w := w2, chunk_n := 0\<rparr>) (drop m p) n1)
                         else chunkWriter_loop c1 (drop m p) n1))"
  by pat_completeness auto

lemma sink_Write_ok_length:
  "sink_Write s p = ((m, None), s') \<Longrightarrow> m = length p"
  by (auto simp: sink_Write_def split: option.splits if_splits)

lemma Write_ok_length:
  "Write w p = ((m, None), w') \<Longrightarrow> m = length p"
  by (induction w arbitrary: w')
     (auto simp: countWriter_Write_def split: prod.splits dest: sink_Write_ok_length)

termination chunkWriter_loop
proof (relation "measure (\<lambda>(c, p, n). length p)", goal_cases)
  case 1
  show ?case by simp
next
  case (2 c p n m0 m1 m2 r w1 m err n1 c1 x k w2)
  from 2 have "m = length (take (nat m2) p)"
    using Write_ok_length[of "chunk_w c" "take (nat m2) p" m w1] by simp
  moreover from 2 have "0 < m2" by (auto simp: maxLineLength_def split: if_splits)
  ultimately show ?case using 2 by (auto split: if_splits)
next
  case (3 c p n m0 m1 m2 r w1 m err n1 c1)
  from 3 have "m = length (take (nat m2) p)"
    using Write_ok_length[of "chunk_w c" "take (nat m2) p" m w1] by simp
  moreover from 3 have "0 < m2" by (auto simp: maxLineLength_def split: if_splits)
  ultimately show ?case using 3 by (auto split: if_splits)
qed

definition chunkWriter_Write ::
  "chunkWriter \<Rightarrow> bytes \<Rightarrow> ((int \<times> error option) \<times> chunkWriter) option" where
  "chunkWriter_Write c p =
     (case chunk_err c of
        Some e \<Rightarrow> Some ((0, Some e), c)
      | None \<Rightarrow> chunkWriter_loop c p 0)"

definition chunkWriter_Close :: "chunkWriter \<Rightarrow> error option \<times> chunkWriter" where
  "chunkWriter_Close c =
     (case chunk_err c of
        Some e \<Rightarrow> (Some e, c)
      | None \<Rightarrow>
          (case io_WriteString (chunk_w c) lineEnding of
             ((k, err), w1) \<Rightarrow> (err, c\<lparr>chunk_err := Some errClosed, chunk_w := w1\<rparr>)))"

text \<open>
  The caller's sequence of \<open>Write\<close> calls on one writer (the bursts of a base64 encoder, of
  \<open>io.Copy\<close>): the counts are added up, and the sequence stops at the first error.
\<close>

fun chunkWriter_writes ::
  "chunkWriter \<Rightarrow> bytes list \<Rightarrow> ((int \<times> error option) \<times> chunkWriter) option" where
  "chunkWriter_writes c [] = Some ((0, None), c)"
| "chunkWriter_writes c (p # ps) =
     (case chunkWriter_Write c p of
        None \<Rightarrow> None
      | Some ((n, Some e), c1) \<Rightarrow> Some ((n, Some e), c1)
      | Some ((n, None), c1) \<Rightarrow>
          (case chunkWriter_writes c1 ps of
             None \<Rightarrow> None
           | Some ((k, err), c2) \<Rightarrow> Some ((n + k, err), c2)))"

text \<open>
  The zero value \<open>chunkWriter{w: w}\<close>, as \<open>writeTo\<close> and \<open>Test_chunkWriter\<close> create it.
\<close>

definition newChunkWriter :: "writer \<Rightarrow> chunkWriter" where
  "newChunkWriter w = \<lparr>chunk_w = w, chunk_n = 0, chunk_err = None\<rparr>"

subsection \<open>What the chunked output is compared with\<close>

text \<open>
  The reference output, byte by byte and without any notion of a write call, with the
  terminator written as the two bytes CR (0x0D) and LF (0x0A) rather than as the constant
  of the code: \<open>chunked col xs\<close> is \<open>xs\<close> with CR LF after every byte that fills a line of 76,
  for a line that already holds \<open>col\<close> bytes. \<open>unchunk\<close> removes again the two bytes that follow
  each 76th payload byte, and fails if they are not CR LF. \<open>strip_crlf\<close> deletes every CR LF
  pair, scanning from the left; \<open>no_crlf xs\<close> says that \<open>xs\<close> has no CR directly followed by
  LF. \<open>lines76\<close> cuts a payload into lines of 76 bytes, the last one shorter (and empty when
  the payload is a multiple of 76 long).
\<close>

fun chunked :: "nat \<Rightarrow> bytes \<Rightarrow> bytes" where
  "chunked col [] = []"
| "chunked col (x # xs) =
     (if Suc col = 76 then x # CHR 0x0D # CHR 0x0A # chunked 0 xs
      else x # chunked (Suc col) xs)"

fun unchunk :: "nat \<Rightarrow> bytes \<Rightarrow> bytes option" where
  "unchunk col [] = Some []"
| "unchunk col (x # xs) =
     (if Suc col = 76
      then (case xs of
              a # b # rest \<Rightarrow>
                if a = CHR 0x0D \<and> b = CHR 0x0A then map_option (Cons x) (unchunk 0 rest)
                else None
            | _ \<Rightarrow> None)
      else map_option (Cons x) (unchunk (Suc col) xs))"

function lines76 :: "bytes \<Rightarrow> bytes list" where
  "lines76 xs = (if length xs < 76 then [xs] else take 76 xs # lines76 (drop 76 xs))"
  by pat_completeness auto
termination by (relation "measure length") auto

text \<open>A writer whose sink accepts every write.\<close>

definition unlimited :: "writer \<Rightarrow> bool" where
  "unlimited w = (room (sink_of w) = None)"

fun strip_crlf :: "bytes \<Rightarrow> bytes" where
  "strip_crlf (a # b # rest) =
     (if a = CHR 0x0D \<and> b = CHR 0x0A then strip_crlf rest else a # strip_crlf (b # rest))"
| "strip_crlf xs = xs"

fun no_crlf :: "bytes \<Rightarrow> bool" where
  "no_crlf (a # b # rest) = (\<not> (a = CHR 0x0D \<and> b = CHR 0x0A) \<and> no_crlf (b # rest))"
| "no_crlf xs = True"


section \<open>Readers\<close>

text \<open>
  The interface \<open>io.Reader\<close> as \<open>NewWithSize\<close> builds it: a reader of the caller, wrapped by
  \<open>io.LimitReader\<close> and by the package's \<open>trimReader\<close>. The caller's reader is modelled by
  what its successive \<open>Read\<close> calls hand back (a list of chunks) and the error that ends it,
  \<open>EOF\<close> for a regular end.
\<close>

datatype reader =
    Source "bytes list" error
  | LimitedReader reader int
  | trimReader reader

text \<open>
  The white-space code points of \<open>unicode.IsSpace\<close> in UTF-8: U+0009 to U+000D, U+0020,
  U+0085, U+00A0, U+1680, U+2000 to U+200A, U+2028, U+2029, U+202F, U+205F, U+3000.
\<close>

definition spaceEncodings :: "bytes list" where
  "spaceEncodings =
     [[CHR 0x09],
      [CHR 0x0A],
      [CHR 0x0B],
      [CHR 0x0C],
      [CHR 0x0D],
      [CHR 0x20],
      [CHR 0xC2, CHR 0x85],
      [CHR 0xC2, CHR 0xA0],
      [CHR 0xE1, CHR 0x9A, CHR 0x80],
      [CHR 0xE2, CHR 0x80, CHR 0x80],
      [CHR 0xE2, CHR 0x80, CHR 0x81],
      [CHR 0xE2, CHR 0x80, CHR 0x82],
      [CHR 0xE2, CHR 0x80, CHR 0x83],
      [CHR 0xE2, CHR 0x80, CHR 0x84],
      [CHR 0xE2, CHR 0x80, CHR 0x85],
      [CHR 0xE2, CHR 0x80, CHR 0x86],
      [CHR 0xE2, CHR 0x80, CHR 0x87],
      [CHR 0xE2, CHR 0x80, CHR 0x88],
      [CHR 0xE2, CHR 0x80, CHR 0x89],
      [CHR 0xE2, CHR 0x80, CHR 0x8A],
      [CHR 0xE2, CHR 0x80, CHR 0xA8],
      [CHR 0xE2, CHR 0x80, CHR 0xA9],
      [CHR 0xE2, CHR 0x80, CHR 0xAF],
      [CHR 0xE2, CHR 0x81, CHR 0x9F],
      [CHR 0xE3, CHR 0x80, CHR 0x80]]"

text \<open>
  One step of \<open>bytes.TrimLeftFunc(b, unicode.IsSpace)\<close>: the width in bytes of the
  white-space code point that starts the slice, 0 when there is none. A byte that does not
  start a complete encoding decodes to \<open>utf8.RuneError\<close>, which is not white space.
\<close>

definition spaceWidth :: "bytes \<Rightarrow> nat" where
  "spaceWidth b =
     (case find (\<lambda>s. take (length s) b = s) spaceEncodings of
        None \<Rightarrow> 0
      | Some s \<Rightarrow> length s)"

lemma spaceEncodings_nonempty: "s \<in> set spaceEncodings \<Longrightarrow> s \<noteq> []"
  by (auto simp: spaceEncodings_def)

lemma spaceWidth_pos:
  assumes "spaceWidth b \<noteq> 0"
  shows "b \<noteq> []"
proof -
  from assms obtain s where s: "find (\<lambda>s. take (length s) b = s) spaceEncodings = Some s"
    by (auto simp: spaceWidth_def split: option.splits)
  then have "s \<in> set spaceEncodings" "take (length s) b = s"
    by (auto simp: find_Some_iff)
  with spaceEncodings_nonempty[of s] show ?thesis by auto
qed

text \<open>\<open>bytes.TrimLeftFunc(b, unicode.IsSpace)\<close>.\<close>

function TrimLeftSpace :: "bytes \<Rightarrow> bytes" where
  "TrimLeftSpace b = (if spaceWidth b = 0 then b else TrimLeftSpace (drop (spaceWidth b) b))"
  by pat_completeness auto
termination
proof (relation "measure length", goal_cases)
  case 1
  show ?case by simp
next
  case (2 b)
  then have "b \<noteq> []" by (rule spaceWidth_pos)
  with 2 show ?case by simp
qed

text \<open>
  \<open>Read\<close> with a buffer of length \<open>k\<close>: the bytes put into the buffer, the error, and the
  reader afterwards. \<open>LimitedReader\<close> is \<open>io.LimitedReader.Read\<close>; \<open>trimReader\<close> is the
  package's \<open>trimReader.Read\<close>, which trims what this one call of the inner reader
  returned.
\<close>

fun Read :: "reader \<Rightarrow> nat \<Rightarrow> (bytes \<times> error option) \<times> reader" where
  "Read (Source [] e) k = (([], Some e), Source [] e)"
| "Read (Source (c # cs) e) k =
     (if length c \<le> k then ((c, None), Source cs e)
      else ((take k c, None), Source (drop k c # cs) e))"
| "Read (LimitedReader r n) k =
     (if n \<le> 0 then (([], Some EOF), LimitedReader r n)
      else
        let k1 = (if int k > n then nat n else k)
        in case Read r k1 of
             ((b, err), r1) \<Rightarrow> ((b, err), LimitedReader r1 (n - int (length b))))"
| "Read (trimReader r) k =
     (case Read r k of
        ((b, err), r1) \<Rightarrow> ((TrimLeftSpace b, err), trimReader r1))"

fun pending :: "reader \<Rightarrow> nat" where
  "pending (Source cs e) = sum_list (map (\<lambda>c. Suc (length c)) cs)"
| "pending (LimitedReader r n) = pending r"
| "pending (trimReader r) = pending r"

lemma Read_progress:
  "0 < k \<Longrightarrow> Read r k = ((b, None), r1) \<Longrightarrow> pending r1 < pending r"
proof (induction r k arbitrary: b r1 rule: Read.induct)
  case (1 e k)
  then show ?case by simp
next
  case (2 c cs e k)
  then show ?case by (auto split: if_splits)
next
  case (3 r n k)
  show ?case
  proof (cases "n \<le> 0")
    case True
    with 3 show ?thesis by simp
  next
    case False
    define k1 where "k1 = (if int k > n then nat n else k)"
    have "0 < k1" using False "3.prems" by (simp add: k1_def)
    obtain b2 e2 r2 where r2: "Read r k1 = ((b2, e2), r2)" by (cases "Read r k1") auto
    with "3.prems" False have "e2 = None" "r1 = LimitedReader r2 (n - int (length b2))"
      by (auto simp: k1_def Let_def)
    with "3.IH"[OF False k1_def \<open>0 < k1\<close>, of b2 r2] r2 show ?thesis by simp
  qed
next
  case (4 r k)
  then show ?case by (auto split: prod.splits)
qed

text \<open>
  \<open>io.Copy(&buf, r)\<close>: reads with a buffer of 32 KiB until the reader reports an error;
  \<open>EOF\<close> ends the copy without error. The result is what was copied and the error.
\<close>

function io_Copy :: "reader \<Rightarrow> bytes \<times> error option" where
  "io_Copy r =
     (case Read r 32768 of
        ((b, Some e), r1) \<Rightarrow> (b, if e = EOF then None else Some e)
      | ((b, None), r1) \<Rightarrow> (case io_Copy r1 of (bs, err) \<Rightarrow> (b @ bs, err)))"
  by pat_completeness auto
termination
proof (relation "measure pending", goal_cases)
  case 1
  show ?case by simp
next
  case (2 r x r1 b err)
  then have "Read r 32768 = ((b, None), r1)" by simp
  from Read_progress[OF _ this] show ?case by simp
qed

text \<open>
  The results of the successive reads that \<open>io.Copy\<close> makes, and the error that ends them:
  what a reader delivers, read by read.
\<close>

function Reads :: "reader \<Rightarrow> bytes list \<times> error" where
  "Reads r =
     (case Read r 32768 of
        ((b, Some e), r1) \<Rightarrow> ([b], e)
      | ((b, None), r1) \<Rightarrow> (case Reads r1 of (bs, e) \<Rightarrow> (b # bs, e)))"
  by pat_completeness auto
termination
proof (relation "measure pending", goal_cases)
  case 1
  show ?case by simp
next
  case (2 r x r1 b err)
  then have "Read r 32768 = ((b, None), r1)" by simp
  from Read_progress[OF _ this] show ?case by simp
qed


section \<open>Messages and headers\<close>

text \<open>
  \<open>textproto.MIMEHeader\<close> is \<open>map[string][]string\<close>. \<open>Index\<close> is Go's \<open>h[k]\<close>, which is the
  nil slice for a missing key; \<open>Get\<close> and \<open>Set\<close> are the methods of \<open>MIMEHeader\<close>. The keys
  used by this package (\<open>To\<close>, \<open>Cc\<close>, \<open>Bcc\<close>, \<open>From\<close>, \<open>Subject\<close>, \<open>Date\<close>, \<open>Message-Id\<close>,
  \<open>Mime-Version\<close>, \<open>Content-Type\<close>, \<open>Content-Transfer-Encoding\<close>) are in canonical form
  already, so the canonicalisation inside \<open>Get\<close> and \<open>Set\<close> leaves them as they are.
\<close>

type_synonym MIMEHeader = "string \<rightharpoonup> string list"

definition Index :: "MIMEHeader \<Rightarrow> string \<Rightarrow> string list" where
  "Index h k = (case h k of None \<Rightarrow> [] | Some v \<Rightarrow> v)"

definition Get :: "MIMEHeader \<Rightarrow> string \<Rightarrow> string" where
  "Get h k = (case Index h k of [] \<Rightarrow> [] | v # vs \<Rightarrow> v)"

definition Set :: "MIMEHeader \<Rightarrow> string \<Rightarrow> string \<Rightarrow> MIMEHeader" where
  "Set h k v = h(k \<mapsto> [v])"

definition delete :: "MIMEHeader \<Rightarrow> string \<Rightarrow> MIMEHeader" where
  "delete h k = h(k := None)"

definition defaultContentType :: string where
  "defaultContentType = ''text/plain; charset=us-ascii''"

record Attachment =
  Name :: string
  Header :: MIMEHeader
  Body :: reader

text \<open>\<open>Headers\<close> is \<open>None\<close> for the nil map and \<open>Some h\<close> for a map that has been made.\<close>

record Email =
  From :: string
  To :: "string list"
  CC :: "string list"
  BCC :: "string list"
  Subject :: string
  Text :: bytes
  HTML :: bytes
  Headers :: "MIMEHeader option"
  Attachments :: "Attachment list"

text \<open>
  What the package takes from the standard library and from the machine it runs on, as
  parameters of the model.
  \<^item> \<open>ReadMIMEHeader s\<close> is \<open>textproto.NewReader(bufio.NewReader(s)).ReadMIMEHeader()\<close>: the
    header, with canonical keys, and the reader \<open>tp.R\<close> that is left, or an error.
  \<^item> \<open>ParseMediaType\<close> is \<open>mime.ParseMediaType\<close>.
  \<^item> \<open>NextParts r boundary\<close> is \<open>multipart.NewReader(r, boundary)\<close> and its \<open>NextPart\<close> calls:
    header and body reader of each part in order, and the error that ends the sequence,
    \<open>EOF\<close> after the closing delimiter.
  \<^item> \<open>hostname\<close> is the package variable set from \<open>os.Hostname\<close>; \<open>sha256_Sum\<close> is the
    SHA-256 digest; \<open>time_Now\<close> is \<open>time.Now()\<close> in nanoseconds since the zero time;
    \<open>Format_RFC1123Z\<close> and \<open>Format_RFC3339\<close> are \<open>Time.Format\<close> for these layouts.
  \<^item> \<open>mw_Boundary\<close> and \<open>sw_Boundary\<close> are the random boundaries that the two calls of
    \<open>multipart.NewWriter\<close> in \<open>writeTo\<close> choose; \<open>CreatePart_bytes boundary started header\<close>
    is what \<open>multipart.Writer.CreatePart\<close> writes, in one \<open>Write\<close>, for a part with this
    header, \<open>started\<close> telling whether the writer has made a part before.
  \<^item> \<open>rangeOrder h\<close> is the order in which a \<open>range\<close> loop visits the keys of the map \<open>h\<close>.
  \<^item> \<open>QEncode\<close> is \<open>mime.QEncoding.Encode("UTF-8", s)\<close>.
  \<^item> \<open>qp_writes content\<close> is the sequence of \<open>Write\<close> calls that a \<open>quotedprintable.Writer\<close>
    makes on its destination for \<open>Write(content)\<close> followed by \<open>Close()\<close>.
  \<^item> \<open>b64_Write buf p\<close> is the sequence of \<open>Write\<close> calls that the base64 encoder makes on
    its destination when it holds the bytes \<open>buf\<close> (fewer than three) and is given \<open>p\<close>, and
    the bytes it holds afterwards; \<open>b64_Close buf\<close> is what its \<open>Close\<close> writes for them.
\<close>

record stdlib =
  ReadMIMEHeader :: "reader \<Rightarrow> error + (MIMEHeader \<times> reader)"
  ParseMediaType :: "string \<Rightarrow> error + (string \<times> (string \<rightharpoonup> string))"
  NextParts :: "reader \<Rightarrow> string \<Rightarrow> (MIMEHeader \<times> reader) list \<times> error"
  hostname :: string
  sha256_Sum :: "bytes \<Rightarrow> bytes"
  time_Now :: int
  Format_RFC1123Z :: "int \<Rightarrow> string"
  Format_RFC3339 :: "int \<Rightarrow> string"
  mw_Boundary :: string
  sw_Boundary :: string
  CreatePart_bytes :: "string \<Rightarrow> bool \<Rightarrow> MIMEHeader \<Rightarrow> bytes"
  rangeOrder :: "MIMEHeader \<Rightarrow> string list"
  QEncode :: "string \<Rightarrow> string"
  qp_writes :: "bytes \<Rightarrow> bytes list"
  b64_Write :: "bytes \<Rightarrow> bytes \<Rightarrow> bytes list \<times> bytes"
  b64_Close :: "bytes \<Rightarrow> bytes"

section \<open>Decoding\<close>

record part =
  ctyp :: string
  body :: bytes

text \<open>
  \<open>parseMediaType\<close> writes the default content type into the header it is given when the
  header has none; the header is a Go map, so the caller sees the change. The model
  returns the header next to the result.
\<close>

definition parseMediaType ::
  "stdlib \<Rightarrow> MIMEHeader \<Rightarrow> (error + (string \<times> string)) \<times> MIMEHeader" where
  "parseMediaType L p =
     (let p1 = (if p ''Content-Type'' = None then Set p ''Content-Type'' defaultContentType else p)
      in case ParseMediaType L (Get p1 ''Content-Type'') of
           Inl err \<Rightarrow> (Inl err, p1)
         | Inr (mtyp, params) \<Rightarrow>
             (Inr (mtyp, case params ''boundary'' of None \<Rightarrow> [] | Some b \<Rightarrow> b), p1))"

definition HasPrefix :: "string \<Rightarrow> string \<Rightarrow> bool" where
  "HasPrefix s pre = (take (length pre) s = pre)"

text \<open>
  \<open>parseMIMEParts\<close> and \<open>parseMultipart\<close> call each other on the parts that the multipart
  reader hands out. The first argument after the library bounds the depth of nesting;
  \<open>None\<close> means that the bound was reached. \<open>parseMultipart_loop\<close> is the \<open>for\<close> loop of
  \<open>parseMultipart\<close> over the parts, with the parts collected so far.
\<close>

fun parseMIMEParts ::
    "stdlib \<Rightarrow> nat \<Rightarrow> MIMEHeader \<Rightarrow> reader \<Rightarrow> ((error + part list) \<times> MIMEHeader) option"
  and parseMultipart :: "stdlib \<Rightarrow> nat \<Rightarrow> reader \<Rightarrow> string \<Rightarrow> (error + part list) option"
  and parseMultipart_loop ::
    "stdlib \<Rightarrow> nat \<Rightarrow> (MIMEHeader \<times> reader) list \<Rightarrow> error \<Rightarrow> part list \<Rightarrow> (error + part list) option"
where
  "parseMIMEParts L 0 p r = None"
| "parseMIMEParts L (Suc d) p r =
     (case parseMediaType L p of
        (Inl err, p1) \<Rightarrow> Some (Inl err, p1)
      | (Inr (mtyp, bdy), p1) \<Rightarrow>
          (if HasPrefix mtyp ''multipart/'' then
             (case parseMultipart L d r bdy of
                None \<Rightarrow> None
              | Some (Inl err) \<Rightarrow> Some (Inl err, p1)
              | Some (Inr sps) \<Rightarrow> Some (Inr ([] @ sps), p1))
           else
             (case io_Copy r of
                (buf, Some err) \<Rightarrow> Some (Inl err, p1)
              | (buf, None) \<Rightarrow> Some (Inr [\<lparr>ctyp = mtyp, body = buf\<rparr>], p1))))"
| "parseMultipart L d r boundary =
     (if boundary = [] then Some (Inl ErrMissingBoundary)
      else (case NextParts L r boundary of
              (parts, fin) \<Rightarrow> parseMultipart_loop L d parts fin []))"
| "parseMultipart_loop L d [] fin ps =
     (if fin = EOF then Some (Inr ps) else Some (Inl fin))"
| "parseMultipart_loop L d ((h, pr) # rest) fin ps =
     (case parseMIMEParts L d h pr of
        None \<Rightarrow> None
      | Some (Inl err, h1) \<Rightarrow> Some (Inl err)
      | Some (Inr pp, h1) \<Rightarrow> parseMultipart_loop L d rest fin (ps @ pp))"

text \<open>The loop of \<open>NewWithSize\<close> over the parts, which sets \<open>e.Text\<close> and \<open>e.HTML\<close>.\<close>

fun classify :: "part list \<Rightarrow> Email \<Rightarrow> Email" where
  "classify [] e = e"
| "classify (p # ps) e =
     classify ps
       (if ctyp p = ''text/plain'' then e\<lparr>Text := body p\<rparr>
        else if ctyp p = ''text/html'' then e\<lparr>HTML := body p\<rparr>
        else e)"

text \<open>
  \<open>NewWithSize\<close>. The struct \<open>e\<close> holds the map \<open>hdrs\<close> itself, so the four deletions and the
  write of \<open>parseMediaType\<close> are seen through \<open>e.Headers\<close>, while \<open>e.To\<close>, \<open>e.CC\<close> and
  \<open>e.BCC\<close> keep the slices read before the deletions.
\<close>

definition NewWithSize :: "stdlib \<Rightarrow> nat \<Rightarrow> reader \<Rightarrow> int \<Rightarrow> (error + Email) option" where
  "NewWithSize L d r maxSize =
     (let s = trimReader (LimitedReader r maxSize)
      in (case ReadMIMEHeader L s of
            Inl err \<Rightarrow> Some (Inl err)
          | Inr (hdrs, tpR) \<Rightarrow>
              (let e = \<lparr>From = Get hdrs ''From'', To = Index hdrs ''To'', CC = Index hdrs ''Cc'',
                        BCC = Index hdrs ''Bcc'', Subject = Get hdrs ''Subject'',
                        Text = [], HTML = [], Headers = Some hdrs, Attachments = []\<rparr>;
                   hdrs1 = fold (\<lambda>hv h. delete h hv) [''Subject'', ''To'', ''Cc'', ''Bcc''] hdrs
               in (case parseMIMEParts L d hdrs1 tpR of
                     None \<Rightarrow> None
                   | Some (Inl err, hdrs2) \<Rightarrow> Some (Inl err)
                   | Some (Inr ps, hdrs2) \<Rightarrow>
                       Some (Inr (classify ps (e\<lparr>Headers := Some hdrs2\<rparr>)))))))"

definition DefaultEmailSize :: int where
  "DefaultEmailSize = 2 ^ 20"

definition New :: "stdlib \<Rightarrow> nat \<Rightarrow> reader \<Rightarrow> (error + Email) option" where
  "New L d r = NewWithSize L d r DefaultEmailSize"

section \<open>Encoding: the header assembler and the Message-Id\<close>

text \<open>\<open>Time.Round\<close> on a time in nanoseconds since the zero time; halfway values go up.\<close>

definition time_Round :: "int \<Rightarrow> int \<Rightarrow> int" where
  "time_Round t d =
     (if d \<le> 0 then t
      else let r = t mod d in if r + r < d then t - r else t + (d - r))"

definition Minute :: int where
  "Minute = 60 * 1000000000"

definition hexdigit :: "nat \<Rightarrow> char" where
  "hexdigit n = ''0123456789abcdef'' ! (n mod 16)"

text \<open>The verb \<open>%x\<close> of \<open>fmt\<close> on a byte slice: two lower-case hexadecimal digits a byte.\<close>

definition hex :: "bytes \<Rightarrow> string" where
  "hex bs = concat (map (\<lambda>c. [hexdigit (of_char c div 16), hexdigit (of_char c mod 16)]) bs)"

text \<open>
  \<open>messageID\<close>. The rounded time is formatted into \<open>buf\<close>, and \<open>buf\<close> is not used again: the
  digest is taken over \<open>From\<close>, \<open>Subject\<close>, \<open>Text\<close> and \<open>HTML\<close>.
\<close>

definition messageID :: "stdlib \<Rightarrow> Email \<Rightarrow> int \<Rightarrow> string" where
  "messageID L e ts =
     (let buf = Format_RFC3339 L (time_Round ts (5 * Minute));
          h = From e @ Subject e @ Text e @ HTML e
      in ''<'' @ hex (take 16 (drop 4 (sha256_Sum L h))) @ ''@'' @ hostname L @ ''>'')"

text \<open>\<open>strings.Join\<close>.\<close>

fun Join :: "string list \<Rightarrow> string \<Rightarrow> string" where
  "Join [] sep = []"
| "Join [x] sep = x"
| "Join (x # y # ys) sep = x @ sep @ Join (y # ys) sep"

text \<open>
  \<open>msgHeaders\<close>. The first loop runs only for a map that is not nil and stores
  \<open>e.Headers[h]\<close> under each of the six keys, the nil slice for a key that \<open>e.Headers\<close>
  lacks. The last loop copies the fields of \<open>e.Headers\<close> that \<open>res\<close> does not have yet.
\<close>

definition msgHeaders :: "stdlib \<Rightarrow> Email \<Rightarrow> error + MIMEHeader" where
  "msgHeaders L e =
     (let res0 = (case Headers e of
                    None \<Rightarrow> Map.empty
                  | Some hs \<Rightarrow>
                      fold (\<lambda>h res. res(h \<mapsto> Index hs h))
                        [''To'', ''Cc'', ''From'', ''Subject'', ''Date'', ''Message-Id''] Map.empty);
          res1 = (if res0 ''To'' = None \<and> length (To e) > 0
                  then Set res0 ''To'' (Join (To e) '', '') else res0);
          res2 = (if res1 ''Cc'' = None \<and> length (CC e) > 0
                  then Set res1 ''Cc'' (Join (CC e) '', '') else res1);
          res3 = (if res2 ''Subject'' = None \<and> Subject e \<noteq> []
                  then Set res2 ''Subject'' (Subject e) else res2)
      in if res3 ''From'' = None \<and> From e = [] then Inl ErrFromEmpty
         else
           let res4 = (if res3 ''From'' = None then Set res3 ''From'' (From e) else res3);
               now = time_Now L;
               res5 = (if res4 ''Date'' = None
                       then Set res4 ''Date'' (Format_RFC1123Z L now) else res4);
               res6 = (if res5 ''Message-Id'' = None
                       then Set res5 ''Message-Id'' (messageID L e now) else res5);
               res7 = (if res6 ''Mime-Version'' = None
                       then Set res6 ''Mime-Version'' ''1.0'' else res6)
           in Inr (case Headers e of
                     None \<Rightarrow> res7
                   | Some hs \<Rightarrow>
                       (\<lambda>field. case res7 field of None \<Rightarrow> hs field | Some vals \<Rightarrow> Some vals)))"

section \<open>Encoding: writing the message\<close>

text \<open>
  What a chain of writers has counted: the \<open>n\<close> of the \<open>countWriter\<close> in it. \<open>unpart\<close> gives
  the writer that a part writer forwards to.
\<close>

fun counted :: "writer \<Rightarrow> int" where
  "counted (ToSink s) = 0"
| "counted (ToCount c) = count_n c"
| "counted (ToPart w) = counted w"

fun unpart :: "writer \<Rightarrow> writer" where
  "unpart (ToPart w) = w"
| "unpart w = w"

text \<open>
  Successive \<open>Write\<close> calls of a library writer on its destination; the first error ends
  them.
\<close>

fun Write_all :: "writer \<Rightarrow> bytes list \<Rightarrow> error option \<times> writer" where
  "Write_all w [] = (None, w)"
| "Write_all w (p # ps) =
     (case Write w p of
        ((n, Some e), w1) \<Rightarrow> (Some e, w1)
      | ((n, None), w1) \<Rightarrow> Write_all w1 ps)"

text \<open>
  \<open>writeHeader\<close>: for every field, in the order of the \<open>range\<close> loop, and every value of
  the field, four calls of \<open>io.WriteString\<close>, whose results are dropped.
\<close>

fun writeHeader_vals :: "stdlib \<Rightarrow> writer \<Rightarrow> string \<Rightarrow> string list \<Rightarrow> writer" where
  "writeHeader_vals L w field [] = w"
| "writeHeader_vals L w field (subval # vals) =
     (let w1 = snd (io_WriteString w field);
          w2 = snd (io_WriteString w1 '': '');
          w3 = snd (io_WriteString w2
                 (if field = ''Content-Type'' \<or> field = ''Content-Disposition'' then subval
                  else QEncode L subval));
          w4 = snd (io_WriteString w3 lineEnding)
      in writeHeader_vals L w4 field vals)"

fun writeHeader_fields :: "stdlib \<Rightarrow> writer \<Rightarrow> MIMEHeader \<Rightarrow> string list \<Rightarrow> writer" where
  "writeHeader_fields L w header [] = w"
| "writeHeader_fields L w header (field # rest) =
     writeHeader_fields L (writeHeader_vals L w field (Index header field)) header rest"

definition writeHeader :: "stdlib \<Rightarrow> writer \<Rightarrow> MIMEHeader \<Rightarrow> writer" where
  "writeHeader L w header = writeHeader_fields L w header (rangeOrder L header)"

text \<open>
  The closure \<open>writeBody\<close> of \<open>writeTo\<close>. Its state is the header map \<open>header\<close>, which it
  changes, whether \<open>sw\<close> has made a part before, and the writer \<open>w\<close>. The quoted-printable
  writer writes to \<open>w\<close> itself, not to the part that \<open>sw.CreatePart\<close> returns.
\<close>

definition writeBody ::
  "stdlib \<Rightarrow> MIMEHeader \<times> bool \<times> writer \<Rightarrow> bytes \<Rightarrow> string
     \<Rightarrow> error option \<times> (MIMEHeader \<times> bool \<times> writer)" where
  "writeBody L st content ctype =
     (case st of (header, started, w) \<Rightarrow>
        if length content = 0 then (None, (header, started, w))
        else
          let header1 = Set header ''Content-Type'' ctype;
              header2 = Set header1 ''Content-Transfer-Encoding'' ''quoted-printable''
          in (case Write w (CreatePart_bytes L (sw_Boundary L) started header2) of
                ((n, Some err), w1) \<Rightarrow> (Some err, (header2, started, w1))
              | ((n, None), w1) \<Rightarrow>
                  (case Write_all w1 (qp_writes L content) of
                     (err, w2) \<Rightarrow> (err, (header2, True, w2)))))"

text \<open>
  The base64 encoder over the chunked-line writer: the bytes it holds back and its sticky
  error. \<open>enc_Write\<close> and \<open>enc_Close\<close> are its \<open>Write\<close> and \<open>Close\<close>, on the pair of the encoder and
  the chunked-line writer it writes to; \<open>None\<close> is the panic of the chunked-line writer.
\<close>

record encoder =
  enc_buf :: bytes
  enc_err :: "error option"

definition enc_Write ::
  "stdlib \<Rightarrow> encoder \<times> chunkWriter \<Rightarrow> bytes \<Rightarrow> (error option \<times> (encoder \<times> chunkWriter)) option" where
  "enc_Write L st p =
     (case st of (en, cw) \<Rightarrow>
        (case enc_err en of
           Some e \<Rightarrow> Some (Some e, (en, cw))
         | None \<Rightarrow>
             (case b64_Write L (enc_buf en) p of
                (bursts, buf1) \<Rightarrow>
                  (case chunkWriter_writes cw bursts of
                     None \<Rightarrow> None
                   | Some ((n, Some e), cw1) \<Rightarrow> Some (Some e, (en\<lparr>enc_err := Some e\<rparr>, cw1))
                   | Some ((n, None), cw1) \<Rightarrow> Some (None, (en\<lparr>enc_buf := buf1\<rparr>, cw1))))))"

definition enc_Close ::
  "stdlib \<Rightarrow> encoder \<times> chunkWriter \<Rightarrow> (error option \<times> (encoder \<times> chunkWriter)) option" where
  "enc_Close L st =
     (case st of (en, cw) \<Rightarrow>
        if enc_err en = None \<and> length (enc_buf en) > 0 then
          (case chunkWriter_Write cw (b64_Close L (enc_buf en)) of
             None \<Rightarrow> None
           | Some ((n, err), cw1) \<Rightarrow> Some (err, (en\<lparr>enc_err := err, enc_buf := []\<rparr>, cw1)))
        else Some (enc_err en, (en, cw)))"

text \<open>
  \<open>io.Copy(enc, a.Body)\<close>: what each read returns is written to the encoder, then the error
  of the read is looked at.
\<close>

function io_Copy_enc ::
  "stdlib \<Rightarrow> reader \<Rightarrow> encoder \<times> chunkWriter \<Rightarrow> (error option \<times> (encoder \<times> chunkWriter)) option" where
  "io_Copy_enc L r st =
     (case Read r 32768 of
        ((b, er), r1) \<Rightarrow>
          (case (if length b > 0 then enc_Write L st b else Some (None, st)) of
             None \<Rightarrow> None
           | Some (Some ew, st1) \<Rightarrow> Some (Some ew, st1)
           | Some (None, st1) \<Rightarrow>
               (case er of
                  Some e \<Rightarrow> Some (if e = EOF then None else Some e, st1)
                | None \<Rightarrow> io_Copy_enc L r1 st1)))"
  by pat_completeness auto
termination
proof (relation "measure (\<lambda>(L, r, st). pending r)", goal_cases)
  case 1
  show ?case by simp
next
  case (2 L r st x r1 b er y z st1)
  then have "Read r 32768 = ((b, None), r1)" by simp
  from Read_progress[OF _ this] show ?case by simp
qed

text \<open>
  The loop of \<open>writeTo\<close> over the attachments. \<open>mw.CreatePart\<close> writes the part header to \<open>w\<close>;
  \<open>cw.w = part\<close> makes the chunked-line writer write through the new part, which forwards
  to \<open>w\<close>. The writer \<open>w\<close> lives inside \<open>chunk_w\<close> while the loop runs.
\<close>

fun attach_loop ::
  "stdlib \<Rightarrow> Attachment list \<Rightarrow> bool \<Rightarrow> encoder \<times> chunkWriter
     \<Rightarrow> (error option \<times> (encoder \<times> chunkWriter)) option" where
  "attach_loop L [] started st = Some (None, st)"
| "attach_loop L (a # as) started (en, cw) =
     (case Write (unpart (chunk_w cw)) (CreatePart_bytes L (mw_Boundary L) started (Header a)) of
        ((n, Some err), w1) \<Rightarrow> Some (Some err, (en, cw\<lparr>chunk_w := ToPart w1\<rparr>))
      | ((n, None), w1) \<Rightarrow>
          (case io_Copy_enc L (Body a) (en, cw\<lparr>chunk_w := ToPart w1\<rparr>) of
             None \<Rightarrow> None
           | Some (Some err, st1) \<Rightarrow> Some (Some err, st1)
           | Some (None, st1) \<Rightarrow> attach_loop L as True st1))"

text \<open>\<open>mw.Close()\<close>: the closing delimiter, in one \<open>Write\<close>.\<close>

definition mw_Close :: "stdlib \<Rightarrow> writer \<Rightarrow> error option \<times> writer" where
  "mw_Close L w =
     (case Write w (lineEnding @ ''--'' @ mw_Boundary L @ ''--'' @ lineEnding) of
        ((n, err), w1) \<Rightarrow> (err, w1))"

text \<open>
  \<open>writeTo\<close>, in the order of its body: the block for the text and HTML bodies, the block
  for the attachments, and the function itself. The errors of \<open>writeHeader\<close>, of the two
  \<open>io.WriteString\<close> and \<open>fmt.Fprintf\<close> calls and of \<open>writeBody\<close> are dropped, as in the source.
  In the attachment block \<open>cw.w\<close> is nil until the first part is made; the model keeps \<open>w\<close>
  there from the start.
\<close>

definition writeTo_alternative :: "stdlib \<Rightarrow> Email \<Rightarrow> writer \<Rightarrow> error option \<times> writer" where
  "writeTo_alternative L e w =
     (if length (Text e) > 0 \<or> length (HTML e) > 0 then
        let header = Set Map.empty ''Content-Type''
                       (''multipart/alternative;'' @ lineEnding @ '' boundary='' @ sw_Boundary L
                          @ lineEnding);
            w1 = writeHeader L w header;
            st1 = snd (writeBody L (header, False, w1) (Text e) ''text/plain; charset=UTF-8'');
            st2 = snd (writeBody L st1 (HTML e) ''text/html; charset=UTF-8'')
        in (case st2 of (header2, started, w2) \<Rightarrow>
              (case Write w2 (lineEnding @ ''--'' @ sw_Boundary L @ ''--'' @ lineEnding) of
                 ((n, err), w3) \<Rightarrow> (err, w3)))
      else (None, w))"

definition writeTo_attachments ::
  "stdlib \<Rightarrow> Email \<Rightarrow> writer \<Rightarrow> (error option \<times> writer) option" where
  "writeTo_attachments L e w =
     (if length (Attachments e) > 0 then
        let cw = \<lparr>chunk_w = ToPart w, chunk_n = 0, chunk_err = None\<rparr>;
            enc = \<lparr>enc_buf = [], enc_err = None\<rparr>
        in (case attach_loop L (Attachments e) False (enc, cw) of
              None \<Rightarrow> None
            | Some (Some err, (enc1, cw1)) \<Rightarrow> Some (Some err, unpart (chunk_w cw1))
            | Some (None, st1) \<Rightarrow>
                (case enc_Close L st1 of
                   None \<Rightarrow> None
                 | Some (Some err, (enc2, cw2)) \<Rightarrow> Some (Some err, unpart (chunk_w cw2))
                 | Some (None, (enc2, cw2)) \<Rightarrow>
                     (case chunkWriter_Close cw2 of
                        (Some err, cw3) \<Rightarrow> Some (Some err, unpart (chunk_w cw3))
                      | (None, cw3) \<Rightarrow> Some (None, unpart (chunk_w cw3)))))
      else Some (None, w))"

definition writeTo :: "stdlib \<Rightarrow> Email \<Rightarrow> writer \<Rightarrow> (error option \<times> writer) option" where
  "writeTo L e w =
     (case msgHeaders L e of
        Inl err \<Rightarrow> Some (Some err, w)
      | Inr hdrs \<Rightarrow>
          let hdrs1 = Set hdrs ''Content-Type''
                        (''multipart/mixed;'' @ lineEnding @ '' boundary='' @ mw_Boundary L);
              w1 = writeHeader L w hdrs1;
              w2 = snd (io_WriteString w1 lineEnding);
              w3 = snd (Write w2 (''--'' @ mw_Boundary L @ lineEnding))
          in (case writeTo_alternative L e w3 of
                (Some err, w4) \<Rightarrow> Some (Some err, w4)
              | (None, w4) \<Rightarrow>
                  (case writeTo_attachments L e w4 of
                     None \<Rightarrow> None
                   | Some (Some err, w5) \<Rightarrow> Some (Some err, w5)
                   | Some (None, w5) \<Rightarrow> Some (mw_Close L w5))))"

text \<open>\<open>WriteTo\<close>: the count of a fresh \<open>countWriter\<close> after \<open>writeTo\<close>, and the error.\<close>

definition WriteTo :: "stdlib \<Rightarrow> Email \<Rightarrow> sink \<Rightarrow> ((int \<times> error option) \<times> sink) option" where
  "WriteTo L e w =
     (let cw = \<lparr>count_w = w, count_n = 0\<rparr>
      in (case writeTo L e (ToCount cw) of
            None \<Rightarrow> None
          | Some (err, w1) \<Rightarrow> Some ((counted w1, err), sink_of w1)))"

text \<open>
  For the proofs: \<open>gap w\<close> is the number of bytes that the sink behind \<open>w\<close> has received and
  that the \<open>countWriter\<close> has not counted; \<open>chunk_m\<close> is the \<open>m\<close> that the loop of
  \<open>chunkWriter.Write\<close> computes before it writes; \<open>fresh_count w k\<close> says that \<open>w\<close> is a
  \<open>countWriter\<close> with count \<open>k\<close> over a sink that accepts every write.
\<close>

definition gap :: "writer \<Rightarrow> int" where
  "gap w = int (length (received (sink_of w))) - counted w"


definition chunk_m :: "chunkWriter \<Rightarrow> bytes \<Rightarrow> int" where
  "chunk_m c p =
     (let m0 = maxLineLength - chunk_n c;
          m1 = (if m0 = 0 then maxLineLength else m0)
      in if m1 > int (length p) then int (length p) else m1)"


definition fresh_count :: "writer \<Rightarrow> int \<Rightarrow> bool" where
  "fresh_count w k = (case w of ToCount c \<Rightarrow> room (count_w c) = None \<and> count_n c = k | _ \<Rightarrow> False)"



section \<open>A concrete library, for evaluating the model\<close>

text \<open>
  The theorems below hold for every value of the library parameters. To evaluate the
  model on a concrete message, \<open>fixture hdrs tpR parts\<close> is a library whose header reader
  returns \<open>hdrs\<close> and the body reader \<open>tpR\<close>, whose multipart reader returns \<open>parts\<close>, and
  whose media-type parser knows the content types used in the examples. Its header
  encoder and its quoted-printable writer pass plain ASCII text through, as the Go ones do
  for the short lines of the examples; its transfer encoder for attachments keeps what it
  is given until \<open>Close\<close>, and the examples have no attachment.
\<close>

definition fixture :: "MIMEHeader \<Rightarrow> reader \<Rightarrow> (MIMEHeader \<times> reader) list \<Rightarrow> stdlib" where
  "fixture hdrs tpR parts =
     \<lparr>ReadMIMEHeader = (\<lambda>s. Inr (hdrs, tpR)),
      ParseMediaType =
        (\<lambda>v. if v = ''text/plain; charset=us-ascii'' \<or> v = ''text/plain''
              then Inr (''text/plain'', Map.empty)
              else if v = ''multipart/mixed; boundary=b''
              then Inr (''multipart/mixed'', [''boundary'' \<mapsto> ''b''])
              else Inl (ErrOther ''mime: no media type'')),
      NextParts = (\<lambda>r boundary. (parts, EOF)),
      hostname = ''localhost.localdomain'',
      sha256_Sum = (\<lambda>b. replicate 32 (CHR 0x00)),
      time_Now = 0,
      Format_RFC1123Z = (\<lambda>t. ''Mon, 01 Jan 0001 00:00:00 +0000''),
      Format_RFC3339 = (\<lambda>t. ''0001-01-01T00:00:00Z''),
      mw_Boundary = ''B1'',
      sw_Boundary = ''B2'',
      CreatePart_bytes =
        (\<lambda>boundary started h.
           (if started then lineEnding else []) @ ''--'' @ boundary @ lineEnding
           @ concat (map (\<lambda>k. concat (map (\<lambda>v. k @ '': '' @ v @ lineEnding) (Index h k)))
               [''Content-Disposition'', ''Content-ID'', ''Content-Transfer-Encoding'',
                ''Content-Type''])
           @ lineEnding),
      rangeOrder =
        (\<lambda>h. filter (\<lambda>k. h k \<noteq> None)
               [''To'', ''Cc'', ''From'', ''Subject'', ''Date'', ''Message-Id'', ''Mime-Version'',
                ''Content-Type'']),
      QEncode = (\<lambda>s. s),
      qp_writes = (\<lambda>content. [content]),
      b64_Write = (\<lambda>buf p. ([], buf @ p)),
      b64_Close = (\<lambda>buf. buf)\<rparr>"


text \<open>The two parts of a \<open>multipart/mixed\<close> body, both of type \<open>text/plain\<close>.\<close>

definition two_plain_parts :: "(MIMEHeader \<times> reader) list" where
  "two_plain_parts =
     [([''Content-Type'' \<mapsto> [''text/plain'']], Source [''first''] EOF),
      ([''Content-Type'' \<mapsto> [''text/plain'']], Source [''second''] EOF)]"


text \<open>A message with a plain-text body, no header overrides and no attachment.\<close>

definition plain_message :: Email where
  "plain_message = \<lparr>From = ''a@x.com'', To = [''b@x.com''], CC = [], BCC = [], Subject = ''S'',
          Text = ''hi'', HTML = [], Headers = None, Attachments = []\<rparr>"


section \<open>Properties of the chunked-line writer\<close>

declare chunkWriter_loop.simps [simp del]

lemma chunkWriter_loop_Nil [simp]: "chunkWriter_loop c [] n = Some ((n, None), c)"
  by (simp add: chunkWriter_loop.simps)

lemma chunked_short:
  "col + length p < 76 \<Longrightarrow> chunked col (p @ q) = p @ chunked (col + length p) q"
  by (induction p arbitrary: col) auto

lemma chunked_full:
  "p \<noteq> [] \<Longrightarrow> col + length p = 76 \<Longrightarrow>
   chunked col (p @ q) = p @ [CHR 0x0D, CHR 0x0A] @ chunked 0 q"
proof (induction p arbitrary: col)
  case Nil then show ?case by simp
next
  case (Cons x p)
  show ?case
  proof (cases "p = []")
    case True with Cons.prems show ?thesis by simp
  next
    case False
    with Cons.prems have "Suc col \<noteq> 76" by (cases p) auto
    moreover have "chunked (Suc col) (p @ q) = p @ [CHR 0x0D, CHR 0x0A] @ chunked 0 q"
      using Cons.IH[OF False, of "Suc col"] Cons.prems by simp
    ultimately show ?thesis by simp
  qed
qed

lemma Write_unlimited:
  "unlimited w \<Longrightarrow> \<exists>w'. Write w p = ((length p, None), w') \<and> unlimited w'
      \<and> received (sink_of w') = received (sink_of w) @ p"
  by (induction w) (auto simp: unlimited_def sink_Write_def countWriter_Write_def)

lemma io_WriteString_unlimited:
  assumes "unlimited w"
  shows "\<exists>w'. io_WriteString w p = ((length p, None), w') \<and> unlimited w'
      \<and> received (sink_of w') = received (sink_of w) @ p"
proof (cases w)
  case (ToPart v)
  with assms have "unlimited v" by (simp add: unlimited_def)
  from Write_unlimited[OF this, of p] ToPart show ?thesis
    by (auto simp: unlimited_def)
qed (use assms in \<open>auto simp: unlimited_def sink_Write_def countWriter_WriteString_def\<close>)

lemma chunkWriter_loop_unlimited:
  "unlimited (chunk_w c) \<Longrightarrow> 0 \<le> chunk_n c \<Longrightarrow> chunk_n c < 76 \<Longrightarrow>
   \<exists>c'. chunkWriter_loop c p n = Some ((n + int (length p), None), c')
      \<and> unlimited (chunk_w c') \<and> chunk_err c' = chunk_err c
      \<and> chunk_n c' = (chunk_n c + int (length p)) mod 76
      \<and> received (sink_of (chunk_w c')) =
          received (sink_of (chunk_w c)) @ chunked (nat (chunk_n c)) p"
proof (induction "length p" arbitrary: c p n rule: less_induct)
  case less
  show ?case
  proof (cases "p = []")
    case True
    with less.prems show ?thesis by simp
  next
    case False
    define k where "k = min (nat (76 - chunk_n c)) (length p)"
    have k_pos: "0 < k" and k_le: "k \<le> length p"
      using False less.prems by (auto simp: k_def)
    obtain w1 where w1: "Write (chunk_w c) (take k p) = ((k, None), w1)" "unlimited w1"
      "received (sink_of w1) = received (sink_of (chunk_w c)) @ take k p"
      using Write_unlimited[OF less.prems(1), of "take k p"] k_le by (auto simp: min_def)
    define c1 where "c1 = c\<lparr>chunk_w := w1, chunk_n := chunk_n c + int k\<rparr>"
    have step: "chunkWriter_loop c p n =
        (if chunk_n c1 = maxLineLength
         then case io_WriteString w1 lineEnding of
                ((j, Some e), w2) \<Rightarrow> Some ((n + int k, Some e), c1\<lparr>chunk_w := w2\<rparr>)
              | ((j, None), w2) \<Rightarrow>
                  chunkWriter_loop (c1\<lparr>chunk_w := w2, chunk_n := 0\<rparr>) (drop k p) (n + int k)
         else chunkWriter_loop c1 (drop k p) (n + int k))"
    proof (cases "76 - chunk_n c > int (length p)")
      case True
      then have "k = length p" by (simp add: k_def)
      with True w1(1) False less.prems show ?thesis
        by (subst chunkWriter_loop.simps)
           (simp add: Let_def c1_def maxLineLength_def del: chunkWriter_loop.simps)
    next
      case F: False
      then have "nat (76 - chunk_n c) = k" by (simp add: k_def)
      with F w1(1) False less.prems show ?thesis
        by (subst chunkWriter_loop.simps)
           (simp add: Let_def c1_def maxLineLength_def del: chunkWriter_loop.simps)
    qed
    show ?thesis
    proof (cases "chunk_n c + int k = 76")
      case full: True
      obtain w2 where w2: "io_WriteString w1 lineEnding = ((length lineEnding, None), w2)"
        "unlimited w2" "received (sink_of w2) = received (sink_of w1) @ lineEnding"
        using io_WriteString_unlimited[OF w1(2), of lineEnding] by auto
      define c2 where "c2 = c1\<lparr>chunk_w := w2, chunk_n := 0\<rparr>"
      have eq: "chunkWriter_loop c p n = chunkWriter_loop c2 (drop k p) (n + int k)"
        using step full w2(1) by (simp add: c1_def c2_def maxLineLength_def)
      have "length (drop k p) < length p" using k_pos False by simp
      from less.hyps[OF this, of c2 "n + int k"] w2(2)
      obtain c' where c': "chunkWriter_loop c2 (drop k p) (n + int k)
            = Some ((n + int k + int (length (drop k p)), None), c')"
          "unlimited (chunk_w c')" "chunk_err c' = chunk_err c2"
          "chunk_n c' = (chunk_n c2 + int (length (drop k p))) mod 76"
          "received (sink_of (chunk_w c')) = received (sink_of (chunk_w c2)) @ chunked (nat (chunk_n c2)) (drop k p)"
        by (auto simp: c2_def)
      have len: "n + int k + int (length (drop k p)) = n + int (length p)"
        using k_le by simp
      have "chunked (nat (chunk_n c)) (take k p @ drop k p)
              = take k p @ [CHR 0x0D, CHR 0x0A] @ chunked 0 (drop k p)"
        apply (rule chunked_full)
        using k_pos k_le False full less.prems by auto
      then have ch: "chunked (nat (chunk_n c)) p
              = take k p @ [CHR 0x0D, CHR 0x0A] @ chunked 0 (drop k p)"
        by simp
      have md: "(chunk_n c + int (length p)) mod 76 = int (length (drop k p)) mod 76"
      proof -
        have "chunk_n c + int (length p) = 76 + int (length (drop k p))"
          using full k_le by simp
        then show ?thesis by simp
      qed
      show ?thesis
        using eq c' len ch md w2(3) w1(3) by (simp add: c2_def c1_def lineEnding_def)
    next
      case part: False
      have kp: "k = length p" and lt: "chunk_n c + int (length p) < 76"
        using part less.prems False by (auto simp: k_def min_def split: if_splits)
      have eq: "chunkWriter_loop c p n = Some ((n + int (length p), None), c1)"
        using step part kp by (simp add: c1_def maxLineLength_def)
      have "chunked (nat (chunk_n c)) (p @ []) = p @ chunked (nat (chunk_n c) + length p) []"
        apply (rule chunked_short) using lt less.prems by auto
      then have ch: "chunked (nat (chunk_n c)) p = p" by simp
      show ?thesis
        using eq ch w1 kp lt less.prems by (simp add: c1_def)
    qed
  qed
qed


lemma chunked_append:
  "col < 76 \<Longrightarrow> chunked col (p @ q) = chunked col p @ chunked ((col + length p) mod 76) q"
proof (induction p arbitrary: col)
  case Nil
  then show ?case by simp
next
  case (Cons x p)
  show ?case
  proof (cases "Suc col = 76")
    case True
    then have "(col + length (x # p)) mod 76 = (0 + length p) mod 76"
      by (simp add: mod_Suc)
    then show ?thesis using True Cons.IH[of 0] by simp
  next
    case False
    then have "Suc col < 76" using Cons.prems by simp
    from Cons.IH[OF this] show ?thesis using False by simp
  qed
qed

lemma unchunk_chunked: "unchunk col (chunked col xs) = Some xs"
  by (induction xs arbitrary: col) auto

declare lines76.simps [simp del]

lemma lines76_length: "l \<in> set (lines76 xs) \<Longrightarrow> length l \<le> 76"
  by (induction xs rule: lines76.induct) (subst (asm) lines76.simps, auto split: if_splits)

lemma lines76_concat: "concat (lines76 xs) = xs"
  by (induction xs rule: lines76.induct) (subst lines76.simps, auto)

lemma lines76_chunked:
  "concat (map (\<lambda>l. l @ [CHR 0x0D, CHR 0x0A]) (lines76 xs)) = chunked 0 xs @ [CHR 0x0D, CHR 0x0A]"
proof (induction xs rule: lines76.induct)
  case (1 xs)
  show ?case
  proof (cases "length xs < 76")
    case True
    have "chunked 0 (xs @ []) = xs @ chunked (0 + length xs) []"
      by (rule chunked_short) (use True in simp)
    then show ?thesis using True by (subst lines76.simps) simp
  next
    case False
    have "chunked 0 (take 76 xs @ drop 76 xs)
            = take 76 xs @ [CHR 0x0D, CHR 0x0A] @ chunked 0 (drop 76 xs)"
      by (rule chunked_full) (use False in auto)
    then show ?thesis using False 1 by (subst lines76.simps) simp
  qed
qed

lemma chunked_Cons_shape: "\<exists>ys. chunked col (x # xs) = x # ys"
  by simp

lemma no_crlf_tail: "no_crlf (x # xs) \<Longrightarrow> no_crlf xs"
  by (cases xs) auto

lemma strip_crlf_chunked:
  "no_crlf xs \<Longrightarrow> strip_crlf (chunked col xs) = xs"
proof (induction xs arbitrary: col)
  case Nil
  then show ?case by simp
next
  case (Cons x xs)
  from Cons.prems have tl: "no_crlf xs" by (rule no_crlf_tail)
  show ?case
  proof (cases "Suc col = 76")
    case True
    then show ?thesis using Cons.IH[OF tl, of 0] by simp
  next
    case False
    show ?thesis
    proof (cases xs)
      case Nil
      then show ?thesis using False by simp
    next
      case (Cons y ys)
      obtain zs where zs: "chunked (Suc col) (y # ys) = y # zs"
        using chunked_Cons_shape by blast
      have "\<not> (x = CHR 0x0D \<and> y = CHR 0x0A)" using Cons.prems local.Cons by simp
      then have "strip_crlf (x # y # zs) = x # strip_crlf (y # zs)"
        by auto
      moreover have "strip_crlf (chunked (Suc col) xs) = xs"
        using Cons.IH[OF tl] by simp
      ultimately show ?thesis using False zs local.Cons by simp
    qed
  qed
qed

lemma no_crlf_Cons: "x \<noteq> CHR 0x0D \<Longrightarrow> no_crlf xs \<Longrightarrow> no_crlf (x # xs)"
  by (cases xs) auto

lemma no_crlf_replicate:
  "x \<noteq> CHR 0x0D \<Longrightarrow> no_crlf ys \<Longrightarrow> no_crlf (replicate n x @ ys)"
  by (induction n) (auto intro: no_crlf_Cons)

lemma chunkWriter_writes_unlimited:
  "unlimited (chunk_w c) \<Longrightarrow> 0 \<le> chunk_n c \<Longrightarrow> chunk_n c < 76 \<Longrightarrow> chunk_err c = None \<Longrightarrow>
   \<exists>c'. chunkWriter_writes c ps = Some ((int (length (concat ps)), None), c')
      \<and> unlimited (chunk_w c') \<and> chunk_err c' = None
      \<and> chunk_n c' = (chunk_n c + int (length (concat ps))) mod 76
      \<and> received (sink_of (chunk_w c')) =
          received (sink_of (chunk_w c)) @ chunked (nat (chunk_n c)) (concat ps)"
proof (induction ps arbitrary: c)
  case Nil
  then show ?case by simp
next
  case (Cons p ps)
  from chunkWriter_loop_unlimited[OF Cons.prems(1-3), of p 0] Cons.prems(4)
  obtain c1 where c1: "chunkWriter_Write c p = Some ((int (length p), None), c1)"
      "unlimited (chunk_w c1)" "chunk_err c1 = None"
      "chunk_n c1 = (chunk_n c + int (length p)) mod 76"
      "received (sink_of (chunk_w c1)) = received (sink_of (chunk_w c)) @ chunked (nat (chunk_n c)) p"
    by (auto simp: chunkWriter_Write_def)
  have b: "0 \<le> chunk_n c1" "chunk_n c1 < 76" using c1(4) by simp_all
  from Cons.IH[OF c1(2) b c1(3)]
  obtain c2 where c2: "chunkWriter_writes c1 ps = Some ((int (length (concat ps)), None), c2)"
      "unlimited (chunk_w c2)" "chunk_err c2 = None"
      "chunk_n c2 = (chunk_n c1 + int (length (concat ps))) mod 76"
      "received (sink_of (chunk_w c2)) = received (sink_of (chunk_w c1)) @ chunked (nat (chunk_n c1)) (concat ps)"
    by blast
  have col: "nat (chunk_n c1) = (nat (chunk_n c) + length p) mod 76"
    using c1(4) Cons.prems(2) by (simp add: nat_mod_distrib nat_add_distrib)
  have "chunked (nat (chunk_n c)) (p @ concat ps)
          = chunked (nat (chunk_n c)) p @ chunked (nat (chunk_n c1)) (concat ps)"
    unfolding col by (rule chunked_append) (use Cons.prems in simp)
  moreover have "chunk_n c2 = (chunk_n c + int (length (concat (p # ps)))) mod 76"
    using c2(4) c1(4) by (simp add: mod_add_left_eq add.assoc)
  ultimately show ?case using c1 c2 by simp
qed


lemma unlimited_new [simp]: "unlimited (ToSink \<lparr>received = d, room = None\<rparr>)"
  by (simp add: unlimited_def)

lemma chunkWriter_Close_unlimited:
  "unlimited (chunk_w c) \<Longrightarrow> chunk_err c = None \<Longrightarrow>
   \<exists>c'. chunkWriter_Close c = (None, c') \<and> chunk_err c' = Some errClosed
      \<and> received (sink_of (chunk_w c')) = received (sink_of (chunk_w c)) @ lineEnding"
  using io_WriteString_unlimited[of "chunk_w c" lineEnding]
  by (auto simp: chunkWriter_Close_def)

text \<open>
  Claim C8. Whatever the sequence of writes \<open>ps\<close> to a fresh chunked-line writer over a
  sink that accepts every write, every write succeeds, and after one \<open>Close\<close> the sink
  holds the payload cut into lines of at most 76 bytes, each followed by the two bytes
  CR LF; \<open>Close\<close> itself adds exactly one CR LF to what the sink held before it, also when
  the current line is empty, and a second \<open>Close\<close> writes nothing and returns the
  closed-writer error.
\<close>

theorem chunkWriter_lines_and_close:
  "\<exists>n c1 c2.
     chunkWriter_writes (newChunkWriter (ToSink \<lparr>received = [], room = None\<rparr>)) ps
       = Some ((n, None), c1)
     \<and> chunkWriter_Close c1 = (None, c2)
     \<and> received (sink_of (chunk_w c2)) = received (sink_of (chunk_w c1)) @ [CHR 0x0D, CHR 0x0A]
     \<and> received (sink_of (chunk_w c2))
         = concat (map (\<lambda>l. l @ [CHR 0x0D, CHR 0x0A]) (lines76 (concat ps)))
     \<and> (\<forall>l \<in> set (lines76 (concat ps)). length l \<le> 76)
     \<and> concat (lines76 (concat ps)) = concat ps
     \<and> chunkWriter_Close c2 = (Some errClosed, c2)"
proof -
  let ?c0 = "newChunkWriter (ToSink \<lparr>received = [], room = None\<rparr>)"
  have "unlimited (chunk_w ?c0)" "0 \<le> chunk_n ?c0" "chunk_n ?c0 < 76" "chunk_err ?c0 = None"
    by (simp_all add: newChunkWriter_def)
  from chunkWriter_writes_unlimited[OF this, of ps]
  obtain c1 where c1: "chunkWriter_writes ?c0 ps = Some ((int (length (concat ps)), None), c1)"
      "unlimited (chunk_w c1)" "chunk_err c1 = None"
      "received (sink_of (chunk_w c1)) = chunked 0 (concat ps)"
    by (auto simp: newChunkWriter_def)
  from chunkWriter_Close_unlimited[OF c1(2,3)]
  obtain c2 where c2: "chunkWriter_Close c1 = (None, c2)" "chunk_err c2 = Some errClosed"
      "received (sink_of (chunk_w c2)) = received (sink_of (chunk_w c1)) @ [CHR 0x0D, CHR 0x0A]"
    by (auto simp: lineEnding_def)
  have "chunkWriter_Close c2 = (Some errClosed, c2)"
    using c2(2) by (simp add: chunkWriter_Close_def)
  then show ?thesis
    using c1 c2 lines76_chunked[of "concat ps"] lines76_length lines76_concat
    by auto
qed

theorem chunkWriter_lines_and_close_witness:
  "\<exists>n c1 c2.
     chunkWriter_writes (newChunkWriter (ToSink \<lparr>received = [], room = None\<rparr>))
        [replicate 70 (CHR ''a''), replicate 6 (CHR ''b'') @ ''c''] = Some ((n, None), c1)
     \<and> chunkWriter_Close c1 = (None, c2)
     \<and> received (sink_of (chunk_w c2))
         = replicate 70 (CHR ''a'') @ replicate 6 (CHR ''b'') @ [CHR 0x0D, CHR 0x0A]
             @ ''c'' @ [CHR 0x0D, CHR 0x0A]"
proof -
  have "lines76 (concat [replicate 70 (CHR ''a''), replicate 6 (CHR ''b'') @ ''c''])
          = [replicate 70 (CHR ''a'') @ replicate 6 (CHR ''b''), ''c'']"
    by (simp add: lines76.simps)
  with chunkWriter_lines_and_close[of "[replicate 70 (CHR ''a''), replicate 6 (CHR ''b'') @ ''c'']"]
  show ?thesis by auto
qed

text \<open>
  Claim C9 as stated fails: the payload \<open>a CR LF b\<close>, written in one burst, reaches the sink
  as it is (it is shorter than a line), and stripping the CR LF pairs of the output gives
  \<open>ab\<close>, not the payload.
\<close>

theorem chunkWriter_strip_crlf_counterexample:
  "(case chunkWriter_writes (newChunkWriter (ToSink \<lparr>received = [], room = None\<rparr>))
          [[CHR ''a'', CHR 0x0D, CHR 0x0A, CHR ''b'']] of
      Some ((n, err), c1) \<Rightarrow>
        err = None
        \<and> received (sink_of (chunk_w c1)) = [CHR ''a'', CHR 0x0D, CHR 0x0A, CHR ''b'']
        \<and> strip_crlf (received (sink_of (chunk_w c1))) = ''ab''
        \<and> strip_crlf (received (sink_of (chunk_w c1))) \<noteq> [CHR ''a'', CHR 0x0D, CHR 0x0A, CHR ''b'']
    | None \<Rightarrow> False)"
proof -
  let ?c0 = "newChunkWriter (ToSink \<lparr>received = [], room = None\<rparr>)"
  let ?p = "[CHR ''a'', CHR 0x0D, CHR 0x0A, CHR ''b'']"
  have "unlimited (chunk_w ?c0)" "0 \<le> chunk_n ?c0" "chunk_n ?c0 < 76" "chunk_err ?c0 = None"
    by (simp_all add: newChunkWriter_def)
  from chunkWriter_writes_unlimited[OF this, of "[?p]"]
  obtain c1 where c1: "chunkWriter_writes ?c0 [?p] = Some ((int (length (concat [?p])), None), c1)"
      "received (sink_of (chunk_w c1)) = chunked 0 (concat [?p])"
    by (auto simp: newChunkWriter_def)
  have "chunked 0 (concat [?p]) = ?p" by simp
  with c1 show ?thesis by simp
qed

text \<open>
  Claim C9, as the code has it. For every payload and every way of cutting it into write
  bursts \<open>ps\<close>, a fresh chunked-line writer over a sink that accepts every write takes all
  the bytes, and removing the CR LF that follows each 76th payload byte of the output
  gives the payload back. Deleting every CR LF pair of the output gives the payload back
  whenever the payload itself has no CR directly followed by LF (base64 text has none).
\<close>

theorem chunkWriter_dechunk_roundtrip:
  "\<exists>c1.
     chunkWriter_writes (newChunkWriter (ToSink \<lparr>received = [], room = None\<rparr>)) ps
       = Some ((int (length (concat ps)), None), c1)
     \<and> unchunk 0 (received (sink_of (chunk_w c1))) = Some (concat ps)
     \<and> (no_crlf (concat ps) \<longrightarrow>
          strip_crlf (received (sink_of (chunk_w c1))) = concat ps)"
proof -
  let ?c0 = "newChunkWriter (ToSink \<lparr>received = [], room = None\<rparr>)"
  have "unlimited (chunk_w ?c0)" "0 \<le> chunk_n ?c0" "chunk_n ?c0 < 76" "chunk_err ?c0 = None"
    by (simp_all add: newChunkWriter_def)
  from chunkWriter_writes_unlimited[OF this, of ps]
  obtain c1 where c1: "chunkWriter_writes ?c0 ps = Some ((int (length (concat ps)), None), c1)"
      "received (sink_of (chunk_w c1)) = chunked 0 (concat ps)"
    by (auto simp: newChunkWriter_def)
  show ?thesis
    using c1 unchunk_chunked[of 0 "concat ps"] strip_crlf_chunked[of "concat ps" 0]
    by auto
qed

theorem chunkWriter_dechunk_roundtrip_witness:
  "no_crlf (concat [replicate 76 (CHR ''a''), [CHR 0x0A, CHR ''b'', CHR 0x0D]])
   \<and> (\<exists>c1. chunkWriter_writes (newChunkWriter (ToSink \<lparr>received = [], room = None\<rparr>))
              [replicate 76 (CHR ''a''), [CHR 0x0A, CHR ''b'', CHR 0x0D]] = Some ((79, None), c1)
          \<and> unchunk 0 (received (sink_of (chunk_w c1)))
              = Some (replicate 76 (CHR ''a'') @ [CHR 0x0A, CHR ''b'', CHR 0x0D])
          \<and> strip_crlf (received (sink_of (chunk_w c1)))
              = replicate 76 (CHR ''a'') @ [CHR 0x0A, CHR ''b'', CHR 0x0D])"
proof -
  have n: "no_crlf (replicate 76 (CHR ''a'') @ [CHR 0x0A, CHR ''b'', CHR 0x0D])"
    by (rule no_crlf_replicate) simp_all
  show ?thesis
    using chunkWriter_dechunk_roundtrip[of "[replicate 76 (CHR ''a''), [CHR 0x0A, CHR ''b'', CHR 0x0D]]"] n
    by simp
qed

section \<open>Properties of the Message-Id and of the header assembler\<close>

text \<open>
  Claim C1. The Message-Id does not depend on the timestamp at all: \<open>messageID\<close> formats the
  rounded time into a buffer and never writes the buffer to the digest. Two calls on the
  same message give the same string whatever the two times are, so also for times in
  different 5-minute buckets, where the claim asks for different strings.
\<close>

theorem messageID_ignores_timestamp:
  "messageID L e ts1 = messageID L e ts2"
  by (simp add: messageID_def Let_def)

lemma msgHeaders_nonnil:
  assumes "Headers e = Some hs"
  shows "\<exists>res. msgHeaders L e = Inr res
          \<and> res ''To'' = Some (Index hs ''To'') \<and> res ''Cc'' = Some (Index hs ''Cc'')
          \<and> res ''From'' = Some (Index hs ''From'') \<and> res ''Subject'' = Some (Index hs ''Subject'')
          \<and> res ''Date'' = Some (Index hs ''Date'')
          \<and> res ''Message-Id'' = Some (Index hs ''Message-Id'')
          \<and> res ''Mime-Version'' = Some [''1.0'']"
  using assms by (simp add: msgHeaders_def Let_def Set_def)

lemma msgHeaders_nil:
  assumes "Headers e = None"
  shows "msgHeaders L e = (if From e = [] then Inl ErrFromEmpty else
           Inr (let r1 = (if To e = [] then Map.empty else [''To'' \<mapsto> [Join (To e) '', '']]);
                    r2 = (if CC e = [] then r1 else r1(''Cc'' \<mapsto> [Join (CC e) '', '']));
                    r3 = (if Subject e = [] then r2 else r2(''Subject'' \<mapsto> [Subject e]))
                in r3(''From'' \<mapsto> [From e], ''Date'' \<mapsto> [Format_RFC1123Z L (time_Now L)],
                      ''Message-Id'' \<mapsto> [messageID L e (time_Now L)],
                      ''Mime-Version'' \<mapsto> [''1.0''])))"
  using assms by (simp add: msgHeaders_def Let_def Set_def)

text \<open>
  Claim C2. With an empty sender and a header map that is not nil and has no \<open>From\<close>
  entry, \<open>msgHeaders\<close> does not fail: its first loop has stored the nil slice under \<open>From\<close>,
  so the test for a missing \<open>From\<close> is not reached, and the assembled header set has a
  \<open>From\<close> field without a value. With the nil map the same message is refused
  (\<open>msgHeaders_nil\<close>).
\<close>

theorem msgHeaders_empty_From_nonnil_Headers:
  assumes "From e = []" and "Headers e = Some hs" and "hs ''From'' = None"
  shows "msgHeaders L e \<noteq> Inl ErrFromEmpty
         \<and> (\<exists>res. msgHeaders L e = Inr res \<and> res ''From'' = Some [])"
  using msgHeaders_nonnil[OF assms(2), of L] assms(3) by (auto simp: Index_def)

theorem msgHeaders_empty_From_nonnil_Headers_witness:
  "From \<lparr>From = [], To = [''b@x.com''], CC = [], BCC = [], Subject = ''S'', Text = ''hi'',
          HTML = [], Headers = Some Map.empty, Attachments = []\<rparr> = []
   \<and> (Map.empty :: MIMEHeader) ''From'' = None
   \<and> msgHeaders (fixture Map.empty (Source [] EOF) [])
         \<lparr>From = [], To = [''b@x.com''], CC = [], BCC = [], Subject = ''S'', Text = ''hi'',
          HTML = [], Headers = Some Map.empty, Attachments = []\<rparr> \<noteq> Inl ErrFromEmpty"
  using msgHeaders_empty_From_nonnil_Headers
    [of "\<lparr>From = [], To = [''b@x.com''], CC = [], BCC = [], Subject = ''S'', Text = ''hi'',
          HTML = [], Headers = Some Map.empty, Attachments = []\<rparr>" Map.empty
        "fixture Map.empty (Source [] EOF) []"]
  by simp

text \<open>
  Claim C5. With a header map that is not nil, \<open>msgHeaders\<close> never derives a field from the
  structured fields: \<open>To\<close>, \<open>Cc\<close>, \<open>From\<close>, \<open>Subject\<close>, \<open>Date\<close> and \<open>Message-Id\<close> each carry
  what the map has under that key, which is no value at all for a key the map lacks. And
  \<open>Mime-Version\<close> is always \<open>1.0\<close>, also when the map has another value for it.
\<close>

theorem msgHeaders_nonnil_Headers_fields:
  assumes "Headers e = Some hs"
  shows "\<exists>res. msgHeaders L e = Inr res
          \<and> res ''To'' = Some (Index hs ''To'') \<and> res ''Cc'' = Some (Index hs ''Cc'')
          \<and> res ''From'' = Some (Index hs ''From'') \<and> res ''Subject'' = Some (Index hs ''Subject'')
          \<and> res ''Date'' = Some (Index hs ''Date'')
          \<and> res ''Message-Id'' = Some (Index hs ''Message-Id'')
          \<and> res ''Mime-Version'' = Some [''1.0'']"
  using msgHeaders_nonnil[OF assms] .

theorem msgHeaders_nonnil_Headers_fields_witness:
  "\<exists>res. msgHeaders (fixture Map.empty (Source [] EOF) [])
            \<lparr>From = ''a@x.com'', To = [''b@x.com''], CC = [], BCC = [], Subject = ''S'',
             Text = ''hi'', HTML = [], Headers = Some [''Mime-Version'' \<mapsto> [''2.0'']],
             Attachments = []\<rparr> = Inr res
      \<and> res ''To'' = Some [] \<and> res ''Subject'' = Some [] \<and> res ''Mime-Version'' = Some [''1.0'']"
  using msgHeaders_nonnil_Headers_fields
    [of "\<lparr>From = ''a@x.com'', To = [''b@x.com''], CC = [], BCC = [], Subject = ''S'',
             Text = ''hi'', HTML = [], Headers = Some [''Mime-Version'' \<mapsto> [''2.0'']],
             Attachments = []\<rparr>" "[''Mime-Version'' \<mapsto> [''2.0'']]"
        "fixture Map.empty (Source [] EOF) []"]
  by (auto simp: Index_def)

section \<open>Properties of the readers\<close>

declare io_Copy.simps [simp del]

declare Reads.simps [simp del]

declare TrimLeftSpace.simps [simp del]

lemma io_Copy_step:
  "Read r 32768 = ((b, err), r1) \<Longrightarrow>
   io_Copy r = (case err of Some e \<Rightarrow> (b, if e = EOF then None else Some e)
                | None \<Rightarrow> (case io_Copy r1 of (bs, err) \<Rightarrow> (b @ bs, err)))"
  by (subst io_Copy.simps) (simp split: option.splits)

lemma Reads_step:
  "Read r 32768 = ((b, err), r1) \<Longrightarrow>
   Reads r = (case err of Some e \<Rightarrow> ([b], e)
              | None \<Rightarrow> (case Reads r1 of (bs, e) \<Rightarrow> (b # bs, e)))"
  by (subst Reads.simps) (simp split: option.splits)

lemma io_Copy_Reads:
  "io_Copy r = (concat (fst (Reads r)), if snd (Reads r) = EOF then None else Some (snd (Reads r)))"
proof (induction "pending r" arbitrary: r rule: less_induct)
  case less
  obtain b err r1 where R: "Read r 32768 = ((b, err), r1)" by (cases "Read r 32768") auto
  show ?case
  proof (cases err)
    case None
    with R have "pending r1 < pending r" using Read_progress[of 32768 r b r1] by simp
    from less[OF this] show ?thesis
      unfolding io_Copy_step[OF R] Reads_step[OF R] None
      by (simp split: prod.splits)
  next
    case (Some e)
    show ?thesis unfolding io_Copy_step[OF R] Reads_step[OF R] Some by simp
  qed
qed

lemma Reads_trimReader:
  "Reads (trimReader r) = (map TrimLeftSpace (fst (Reads r)), snd (Reads r))"
proof (induction "pending r" arbitrary: r rule: less_induct)
  case less
  obtain b err r1 where R: "Read r 32768 = ((b, err), r1)" by (cases "Read r 32768") auto
  then have T: "Read (trimReader r) 32768 = ((TrimLeftSpace b, err), trimReader r1)" by simp
  show ?case
  proof (cases err)
    case None
    with R have "pending r1 < pending r" using Read_progress[of 32768 r b r1] by simp
    from less[OF this] show ?thesis
      unfolding Reads_step[OF T] Reads_step[OF R] None
      by (simp split: prod.splits)
  next
    case (Some e)
    show ?thesis unfolding Reads_step[OF T] Reads_step[OF R] Some by simp
  qed
qed

lemma TrimLeftSpace_stop: "spaceWidth b = 0 \<Longrightarrow> TrimLeftSpace b = b"
  by (subst TrimLeftSpace.simps) simp

lemma TrimLeftSpace_drop:
  "spaceWidth b \<noteq> 0 \<Longrightarrow> TrimLeftSpace b = TrimLeftSpace (drop (spaceWidth b) b)"
  by (subst TrimLeftSpace.simps) simp

lemma spaceWidth_CR_LF [simp]:
  "spaceWidth (CHR 0x0D # b) = 1" "spaceWidth (CHR 0x0A # b) = 1"
  by (simp_all add: spaceWidth_def spaceEncodings_def)

lemma spaceWidth_letter [simp]: "spaceWidth (CHR ''F'' # b) = 0" "spaceWidth (CHR ''b'' # b) = 0"
  by (simp_all add: spaceWidth_def spaceEncodings_def)

text \<open>
  Claim C6. The trim-reader is there to remove the white space that precedes a message
  (the comment on the type), and the claim says that nothing after the first byte of the
  message is touched. \<open>trimReader.Read\<close> trims what every call of the inner reader
  returns, so white space that happens to start a later read is lost. A message that
  arrives as \<open>From: a@x.com CR LF\<close> and then \<open>CR LF body\<close> reaches the consumer without its
  blank line; read without the trim-reader it arrives whole.
\<close>

theorem trimReader_drops_blank_line:
  "fst (io_Copy (LimitedReader
          (Source [''From: a@x.com'' @ [CHR 0x0D, CHR 0x0A], [CHR 0x0D, CHR 0x0A] @ ''body''] EOF)
          DefaultEmailSize))
     = ''From: a@x.com'' @ [CHR 0x0D, CHR 0x0A, CHR 0x0D, CHR 0x0A] @ ''body''
   \<and> fst (io_Copy (trimReader (LimitedReader
          (Source [''From: a@x.com'' @ [CHR 0x0D, CHR 0x0A], [CHR 0x0D, CHR 0x0A] @ ''body''] EOF)
          DefaultEmailSize)))
     = ''From: a@x.com'' @ [CHR 0x0D, CHR 0x0A] @ ''body''"
proof -
  let ?r = "LimitedReader
          (Source [''From: a@x.com'' @ [CHR 0x0D, CHR 0x0A], [CHR 0x0D, CHR 0x0A] @ ''body''] EOF)
          DefaultEmailSize"
  have R: "fst (Reads ?r)
             = [''From: a@x.com'' @ [CHR 0x0D, CHR 0x0A], [CHR 0x0D, CHR 0x0A] @ ''body'', []]"
    apply (subst Reads.simps, simp add: DefaultEmailSize_def)
    apply (subst Reads.simps, simp add: DefaultEmailSize_def)
    apply (subst Reads.simps, simp add: DefaultEmailSize_def)
    done
  have T1: "TrimLeftSpace (''From: a@x.com'' @ [CHR 0x0D, CHR 0x0A]) = ''From: a@x.com'' @ [CHR 0x0D, CHR 0x0A]"
     "TrimLeftSpace ([CHR 0x0D, CHR 0x0A] @ ''body'') = ''body''"
     "TrimLeftSpace [] = []"
    by (simp_all add: TrimLeftSpace_drop TrimLeftSpace_stop spaceWidth_def[of "[]"] spaceEncodings_def)
  show ?thesis
    using io_Copy_Reads[of ?r] io_Copy_Reads[of "trimReader ?r"]
    by (simp add: Reads_trimReader R[simplified] T1[simplified])
qed

section \<open>Properties of decoding\<close>


lemma io_Copy_Source:
  "\<forall>c \<in> set cs. length c \<le> 32768 \<Longrightarrow>
   io_Copy (Source cs e) = (concat cs, if e = EOF then None else Some e)"
proof (induction cs)
  case Nil
  show ?case by (subst io_Copy.simps) simp
next
  case (Cons c cs)
  then show ?case by (subst io_Copy.simps) simp
qed

lemma classify_Headers [simp]: "Headers (classify ps e) = Headers e"
  by (induction ps arbitrary: e) auto

lemma classify_Text:
  "Text (classify ps e) =
     (case rev (filter (\<lambda>p. ctyp p = ''text/plain'') ps) of [] \<Rightarrow> Text e | p # qs \<Rightarrow> body p)"
  by (induction ps arbitrary: e) (auto split: list.splits)

lemma classify_HTML:
  "HTML (classify ps e) =
     (case rev (filter (\<lambda>p. ctyp p = ''text/html'') ps) of [] \<Rightarrow> HTML e | p # qs \<Rightarrow> body p)"
  by (induction ps arbitrary: e) (auto split: list.splits)

lemma parseMediaType_header:
  "snd (parseMediaType L p) =
     (if p ''Content-Type'' = None then Set p ''Content-Type'' defaultContentType else p)"
  by (auto simp: parseMediaType_def Let_def split: sum.splits prod.splits)

lemma parseMIMEParts_header:
  "parseMIMEParts L d p r = Some (res, p1) \<Longrightarrow>
   p1 = (if p ''Content-Type'' = None then Set p ''Content-Type'' defaultContentType else p)"
  using parseMediaType_header[of L p]
  by (cases d) (auto split: prod.splits sum.splits option.splits if_splits)

lemma NewWithSize_Some:
  assumes "NewWithSize L d r maxSize = Some (Inr e)"
  shows "\<exists>hdrs tpR ps h2.
           ReadMIMEHeader L (trimReader (LimitedReader r maxSize)) = Inr (hdrs, tpR)
         \<and> parseMIMEParts L d
               (fold (\<lambda>hv h. delete h hv) [''Subject'', ''To'', ''Cc'', ''Bcc''] hdrs) tpR
             = Some (Inr ps, h2)
         \<and> e = classify ps
               \<lparr>From = Get hdrs ''From'', To = Index hdrs ''To'', CC = Index hdrs ''Cc'',
                BCC = Index hdrs ''Bcc'', Subject = Get hdrs ''Subject'',
                Text = [], HTML = [], Headers = Some h2, Attachments = []\<rparr>"
  using assms
  by (auto simp: NewWithSize_def Let_def split: sum.splits prod.splits option.splits)

text \<open>
  Claim C10. When decoding succeeds and the header read from the stream has no
  \<open>Content-Type\<close> entry, the header set of the returned message has one, with the value
  \<open>text/plain; charset=us-ascii\<close>.
\<close>

theorem NewWithSize_default_Content_Type:
  assumes "NewWithSize L d r maxSize = Some (Inr e)"
    and "ReadMIMEHeader L (trimReader (LimitedReader r maxSize)) = Inr (hdrs, tpR)"
    and "hdrs ''Content-Type'' = None"
  shows "\<exists>hs. Headers e = Some hs \<and> hs ''Content-Type'' = Some [defaultContentType]"
proof -
  from NewWithSize_Some[OF assms(1)] assms(2)
  obtain ps h2 where p: "parseMIMEParts L d
        (fold (\<lambda>hv h. delete h hv) [''Subject'', ''To'', ''Cc'', ''Bcc''] hdrs) tpR = Some (Inr ps, h2)"
      and e: "Headers e = Some h2"
    by auto
  from parseMIMEParts_header[OF p] assms(3)
  have "h2 ''Content-Type'' = Some [defaultContentType]"
    by (simp add: delete_def Set_def)
  with e show ?thesis by simp
qed

theorem NewWithSize_default_Content_Type_witness:
  "\<exists>e hs. NewWithSize (fixture [''From'' \<mapsto> [''a@x.com''], ''Subject'' \<mapsto> [''S'']] (Source [''hi''] EOF) [])
            1 (Source [''From: a@x.com\<newline>Subject: S\<newline>\<newline>hi''] EOF) DefaultEmailSize = Some (Inr e)
      \<and> [''From'' \<mapsto> [''a@x.com''], ''Subject'' \<mapsto> [''S'']] ''Content-Type'' = None
      \<and> Headers e = Some hs \<and> hs ''Content-Type'' = Some [''text/plain; charset=us-ascii'']
      \<and> Text e = ''hi''"
proof -
  let ?h = "[''From'' \<mapsto> [''a@x.com''], ''Subject'' \<mapsto> [''S'']]"
  let ?L = "fixture ?h (Source [''hi''] EOF) []"
  let ?r = "Source [''From: a@x.com\<newline>Subject: S\<newline>\<newline>hi''] EOF"
  have c: "io_Copy (Source [''hi''] EOF) = (''hi'', None)"
    by (simp add: io_Copy_Source)
  have "\<exists>e. NewWithSize ?L 1 ?r DefaultEmailSize = Some (Inr e) \<and> Text e = ''hi''"
    by (simp add: NewWithSize_def fixture_def parseMediaType_def Set_def Get_def Index_def
        delete_def defaultContentType_def HasPrefix_def c Let_def)
  then obtain e where e: "NewWithSize ?L 1 ?r DefaultEmailSize = Some (Inr e)" "Text e = ''hi''"
    by blast
  have r: "ReadMIMEHeader ?L (trimReader (LimitedReader ?r DefaultEmailSize)) = Inr (?h, Source [''hi''] EOF)"
    by (simp add: fixture_def)
  from NewWithSize_default_Content_Type[OF e(1) r] e show ?thesis
    by (auto simp: defaultContentType_def)
qed

text \<open>
  Claim C7. After a successful decode the header set of the message has no \<open>To\<close>, \<open>Cc\<close>,
  \<open>Bcc\<close> and \<open>Subject\<close> entry, and every other field read from the input is there
  unchanged; this includes \<open>From\<close>, which the claim says is removed: \<open>NewWithSize\<close> copies
  it into \<open>e.From\<close> and deletes only the other four.
\<close>

theorem NewWithSize_keeps_From:
  assumes "NewWithSize L d r maxSize = Some (Inr e)"
    and "ReadMIMEHeader L (trimReader (LimitedReader r maxSize)) = Inr (hdrs, tpR)"
  shows "\<exists>hs. Headers e = Some hs
           \<and> hs ''From'' = hdrs ''From''
           \<and> hs ''To'' = None \<and> hs ''Cc'' = None \<and> hs ''Bcc'' = None \<and> hs ''Subject'' = None
           \<and> (\<forall>k. k \<notin> {''To'', ''Cc'', ''Bcc'', ''Subject'', ''Content-Type''} \<longrightarrow> hs k = hdrs k)
           \<and> (hdrs ''Content-Type'' \<noteq> None \<longrightarrow> hs ''Content-Type'' = hdrs ''Content-Type'')"
proof -
  from NewWithSize_Some[OF assms(1)] assms(2)
  obtain ps h2 where p: "parseMIMEParts L d
        (fold (\<lambda>hv h. delete h hv) [''Subject'', ''To'', ''Cc'', ''Bcc''] hdrs) tpR = Some (Inr ps, h2)"
      and e: "Headers e = Some h2"
    by auto
  from parseMIMEParts_header[OF p]
  have "h2 = (\<lambda>k. if k \<in> {''To'', ''Cc'', ''Bcc'', ''Subject''} then None
                   else if k = ''Content-Type'' \<and> hdrs k = None then Some [defaultContentType]
                   else hdrs k)"
    by (auto simp: delete_def Set_def fun_eq_iff)
  with e show ?thesis by simp
qed

theorem NewWithSize_keeps_From_witness:
  "\<exists>e hs. NewWithSize (fixture [''From'' \<mapsto> [''a@x.com''], ''To'' \<mapsto> [''b@x.com'']] (Source [''hi''] EOF) [])
            1 (Source [''From: a@x.com\<newline>To: b@x.com\<newline>\<newline>hi''] EOF) DefaultEmailSize = Some (Inr e)
      \<and> From e = ''a@x.com'' \<and> To e = [''b@x.com'']
      \<and> Headers e = Some hs \<and> hs ''From'' = Some [''a@x.com''] \<and> hs ''To'' = None"
proof -
  let ?h = "[''From'' \<mapsto> [''a@x.com''], ''To'' \<mapsto> [''b@x.com'']]"
  let ?L = "fixture ?h (Source [''hi''] EOF) []"
  let ?r = "Source [''From: a@x.com\<newline>To: b@x.com\<newline>\<newline>hi''] EOF"
  have c: "io_Copy (Source [''hi''] EOF) = (''hi'', None)"
    by (simp add: io_Copy_Source)
  have "\<exists>e. NewWithSize ?L 1 ?r DefaultEmailSize = Some (Inr e)
          \<and> From e = ''a@x.com'' \<and> To e = [''b@x.com'']"
    by (simp add: NewWithSize_def fixture_def parseMediaType_def Set_def Get_def Index_def
        delete_def defaultContentType_def HasPrefix_def c Let_def)
  then obtain e where e: "NewWithSize ?L 1 ?r DefaultEmailSize = Some (Inr e)"
      "From e = ''a@x.com''" "To e = [''b@x.com'']"
    by blast
  have r: "ReadMIMEHeader ?L (trimReader (LimitedReader ?r DefaultEmailSize)) = Inr (?h, Source [''hi''] EOF)"
    by (simp add: fixture_def)
  from NewWithSize_keeps_From[OF e(1) r] e show ?thesis
    by auto
qed

lemma two_plain_parts_leaves:
  "map_option fst
     (parseMIMEParts (fixture hd0 tp0 two_plain_parts) 2
        [''Content-Type'' \<mapsto> [''multipart/mixed; boundary=b'']] tp0)
   = Some (Inr [\<lparr>ctyp = ''text/plain'', body = ''first''\<rparr>,
                \<lparr>ctyp = ''text/plain'', body = ''second''\<rparr>])"
proof -
  have c: "io_Copy (Source [''first''] EOF) = (''first'', None)"
     "io_Copy (Source [''second''] EOF) = (''second'', None)"
    by (simp_all add: io_Copy_Source)
  show ?thesis
    by (simp add: numeral_2_eq_2 fixture_def two_plain_parts_def parseMediaType_def Set_def
        Get_def Index_def HasPrefix_def c Let_def)
qed

text \<open>
  Claim C3 as stated fails: a \<open>multipart/mixed\<close> message whose leaves are two \<open>text/plain\<close>
  parts, \<open>first\<close> and then \<open>second\<close>, decodes to a message whose text body is \<open>second\<close>.
\<close>

theorem NewWithSize_first_leaf_counterexample:
  "map_option fst
     (parseMIMEParts
        (fixture [''Content-Type'' \<mapsto> [''multipart/mixed; boundary=b'']] (Source [] EOF) two_plain_parts) 2
        [''Content-Type'' \<mapsto> [''multipart/mixed; boundary=b'']] (Source [] EOF))
   = Some (Inr [\<lparr>ctyp = ''text/plain'', body = ''first''\<rparr>,
                \<lparr>ctyp = ''text/plain'', body = ''second''\<rparr>])
   \<and> (case NewWithSize
             (fixture [''Content-Type'' \<mapsto> [''multipart/mixed; boundary=b'']] (Source [] EOF) two_plain_parts)
             2 (Source [] EOF) DefaultEmailSize of
         Some (Inr e) \<Rightarrow> Text e = ''second'' \<and> Text e \<noteq> ''first''
       | _ \<Rightarrow> False)"
proof -
  have c: "io_Copy (Source [''first''] EOF) = (''first'', None)"
     "io_Copy (Source [''second''] EOF) = (''second'', None)"
    by (simp_all add: io_Copy_Source)
  show ?thesis
    by (simp add: numeral_2_eq_2 NewWithSize_def fixture_def two_plain_parts_def parseMediaType_def
        Set_def Get_def Index_def delete_def HasPrefix_def c Let_def)
qed

text \<open>
  Claim C3, as the code has it. After a successful decode, the plain-text body is the body
  of the last leaf whose content type is exactly \<open>text/plain\<close>, and the HTML body that of
  the last leaf whose content type is exactly \<open>text/html\<close>; a body with no such leaf is
  empty.
\<close>

theorem NewWithSize_last_leaf_wins:
  assumes "NewWithSize L d r maxSize = Some (Inr e)"
  shows "\<exists>hdrs tpR ps h2.
           ReadMIMEHeader L (trimReader (LimitedReader r maxSize)) = Inr (hdrs, tpR)
         \<and> parseMIMEParts L d
               (fold (\<lambda>hv h. delete h hv) [''Subject'', ''To'', ''Cc'', ''Bcc''] hdrs) tpR
             = Some (Inr ps, h2)
         \<and> Text e = (case rev (filter (\<lambda>p. ctyp p = ''text/plain'') ps) of
                       [] \<Rightarrow> [] | p # qs \<Rightarrow> body p)
         \<and> HTML e = (case rev (filter (\<lambda>p. ctyp p = ''text/html'') ps) of
                       [] \<Rightarrow> [] | p # qs \<Rightarrow> body p)"
proof -
  from NewWithSize_Some[OF assms] obtain hdrs tpR ps h2 where
    *: "ReadMIMEHeader L (trimReader (LimitedReader r maxSize)) = Inr (hdrs, tpR)"
       "parseMIMEParts L d
               (fold (\<lambda>hv h. delete h hv) [''Subject'', ''To'', ''Cc'', ''Bcc''] hdrs) tpR
             = Some (Inr ps, h2)"
       "e = classify ps
               \<lparr>From = Get hdrs ''From'', To = Index hdrs ''To'', CC = Index hdrs ''Cc'',
                BCC = Index hdrs ''Bcc'', Subject = Get hdrs ''Subject'',
                Text = [], HTML = [], Headers = Some h2, Attachments = []\<rparr>"
    by blast
  show ?thesis
    apply (rule exI[of _ hdrs], rule exI[of _ tpR], rule exI[of _ ps], rule exI[of _ h2])
    using * by (simp add: classify_Text classify_HTML split: list.splits)
qed


theorem NewWithSize_last_leaf_wins_witness:
  "\<exists>e. NewWithSize
          (fixture [''Content-Type'' \<mapsto> [''multipart/mixed; boundary=b'']] (Source [] EOF) two_plain_parts)
          2 (Source [] EOF) DefaultEmailSize = Some (Inr e)
      \<and> Text e = ''second'' \<and> HTML e = []"
proof -
  let ?h = "[''Content-Type'' \<mapsto> [''multipart/mixed; boundary=b'']]"
  let ?L = "fixture ?h (Source [] EOF) two_plain_parts"
  have c: "io_Copy (Source [''first''] EOF) = (''first'', None)"
     "io_Copy (Source [''second''] EOF) = (''second'', None)"
    by (simp_all add: io_Copy_Source)
  have "\<exists>e. NewWithSize ?L 2 (Source [] EOF) DefaultEmailSize = Some (Inr e)"
    by (simp add: numeral_2_eq_2 NewWithSize_def fixture_def two_plain_parts_def parseMediaType_def
        Set_def Get_def Index_def delete_def HasPrefix_def c Let_def)
  then obtain e where e: "NewWithSize ?L 2 (Source [] EOF) DefaultEmailSize = Some (Inr e)"
    by blast
  from NewWithSize_last_leaf_wins[OF e] obtain hdrs tpR ps h2 where
    *: "ReadMIMEHeader ?L (trimReader (LimitedReader (Source [] EOF) DefaultEmailSize)) = Inr (hdrs, tpR)"
       "parseMIMEParts ?L 2
               (fold (\<lambda>hv h. delete h hv) [''Subject'', ''To'', ''Cc'', ''Bcc''] hdrs) tpR
             = Some (Inr ps, h2)"
       "Text e = (case rev (filter (\<lambda>p. ctyp p = ''text/plain'') ps) of
                       [] \<Rightarrow> [] | p # qs \<Rightarrow> body p)"
       "HTML e = (case rev (filter (\<lambda>p. ctyp p = ''text/html'') ps) of
                       [] \<Rightarrow> [] | p # qs \<Rightarrow> body p)"
    by blast
  from *(1) have h: "hdrs = ?h" "tpR = Source [] EOF" by (simp_all add: fixture_def)
  have "fold (\<lambda>hv h. delete h hv) [''Subject'', ''To'', ''Cc'', ''Bcc''] ?h = ?h"
    by (simp add: delete_def fun_eq_iff)
  with *(2) h two_plain_parts_leaves[of ?h "Source [] EOF"]
  have "ps = [\<lparr>ctyp = ''text/plain'', body = ''first''\<rparr>,
              \<lparr>ctyp = ''text/plain'', body = ''second''\<rparr>]"
    by simp
  with *(3,4) e show ?thesis by simp
qed

section \<open>Properties of the stream encoder\<close>

lemma sink_Write_received:
  "sink_Write s p = ((n, err), s1) \<Longrightarrow> length (received s1) = length (received s) + n"
  by (auto simp: sink_Write_def split: option.splits if_splits)

lemma Write_gap: "Write w p = (r, w1) \<Longrightarrow> gap w \<le> gap w1"
proof (induction w arbitrary: r w1)
  case (ToSink s)
  then show ?case
    using sink_Write_received[of s p "fst r" "snd r"]
    by (auto simp: gap_def split: prod.splits)
next
  case (ToCount c)
  then show ?case
    using sink_Write_received[of "count_w c" p "fst r" "snd r"]
    by (auto simp: gap_def countWriter_Write_def split: prod.splits)
next
  case (ToPart w)
  then show ?case
    by (cases "Write w p") (auto simp: gap_def)
qed

lemma io_WriteString_gap: "io_WriteString w p = (r, w1) \<Longrightarrow> gap w \<le> gap w1"
proof (cases w)
  case (ToSink s)
  assume "io_WriteString w p = (r, w1)"
  with ToSink show ?thesis
    using sink_Write_received[of s p "fst r" "snd r"]
    by (auto simp: gap_def split: prod.splits)
next
  case (ToCount c)
  assume "io_WriteString w p = (r, w1)"
  with ToCount show ?thesis
    using sink_Write_received[of "count_w c" p "fst r" "snd r"]
    by (auto simp: gap_def countWriter_WriteString_def split: prod.splits)
next
  case (ToPart v)
  assume "io_WriteString w p = (r, w1)"
  with ToPart Write_gap[of v p] show ?thesis
    by (cases "Write v p") (auto simp: gap_def)
qed

lemma Write_gap_snd: "gap w \<le> gap (snd (Write w p))"
  using Write_gap[of w p] by (cases "Write w p") auto

lemma io_WriteString_gap_snd: "gap w \<le> gap (snd (io_WriteString w p))"
  using io_WriteString_gap[of w p] by (cases "io_WriteString w p") auto

lemma gap_unpart [simp]: "gap (unpart w) = gap w"
  by (cases w) (auto simp: gap_def)

lemma gap_ToPart [simp]: "gap (ToPart w) = gap w"
  by (simp add: gap_def)

lemma Write_all_gap: "Write_all w ps = (err, w1) \<Longrightarrow> gap w \<le> gap w1"
proof (induction ps arbitrary: w)
  case Nil
  then show ?case by simp
next
  case (Cons p ps)
  obtain n e w2 where W: "Write w p = ((n, e), w2)" by (cases "Write w p") auto
  from Write_gap[OF W] have g: "gap w \<le> gap w2" .
  show ?case
  proof (cases e)
    case None
    with Cons.prems W have "Write_all w2 ps = (err, w1)" by simp
    from Cons.IH[OF this] g show ?thesis by simp
  next
    case (Some x)
    with Cons.prems W g show ?thesis by simp
  qed
qed

lemma writeHeader_vals_gap: "gap w \<le> gap (writeHeader_vals L w field vals)"
proof (induction vals arbitrary: w)
  case Nil
  show ?case by simp
next
  case (Cons v vals)
  let ?w1 = "snd (io_WriteString w field)"
  let ?w2 = "snd (io_WriteString ?w1 '': '')"
  let ?w3 = "snd (io_WriteString ?w2
                 (if field = ''Content-Type'' \<or> field = ''Content-Disposition'' then v
                  else QEncode L v))"
  let ?w4 = "snd (io_WriteString ?w3 lineEnding)"
  have "gap w \<le> gap ?w1" by (rule io_WriteString_gap_snd)
  also have "\<dots> \<le> gap ?w2" by (rule io_WriteString_gap_snd)
  also have "\<dots> \<le> gap ?w3" by (rule io_WriteString_gap_snd)
  also have "\<dots> \<le> gap ?w4" by (rule io_WriteString_gap_snd)
  also have "\<dots> \<le> gap (writeHeader_vals L ?w4 field vals)" by (rule Cons.IH)
  finally show ?case by (simp add: Let_def)
qed

lemma writeHeader_fields_gap: "gap w \<le> gap (writeHeader_fields L w header ks)"
proof (induction ks arbitrary: w)
  case Nil
  show ?case by simp
next
  case (Cons k ks)
  have "gap w \<le> gap (writeHeader_vals L w k (Index header k))"
    by (rule writeHeader_vals_gap)
  also have "\<dots> \<le> gap (writeHeader_fields L (writeHeader_vals L w k (Index header k)) header ks)"
    by (rule Cons.IH)
  finally show ?case by simp
qed

lemma writeHeader_gap: "gap w \<le> gap (writeHeader L w header)"
  by (simp add: writeHeader_def writeHeader_fields_gap)

lemma writeBody_gap:
  "gap w \<le> gap (snd (snd (snd (writeBody L (header, started, w) content ctype))))"
proof (cases "length content = 0")
  case True
  then show ?thesis by (simp add: writeBody_def)
next
  case False
  let ?h = "Set (Set header ''Content-Type'' ctype) ''Content-Transfer-Encoding'' ''quoted-printable''"
  obtain n e w1 where W: "Write w (CreatePart_bytes L (sw_Boundary L) started ?h) = ((n, e), w1)"
    by (cases "Write w (CreatePart_bytes L (sw_Boundary L) started ?h)") auto
  from Write_gap[OF W] have g: "gap w \<le> gap w1" .
  show ?thesis
  proof (cases e)
    case (Some x)
    with False W g show ?thesis by (simp add: writeBody_def Let_def)
  next
    case None
    obtain err w2 where A: "Write_all w1 (qp_writes L content) = (err, w2)"
      by (cases "Write_all w1 (qp_writes L content)") auto
    from Write_all_gap[OF A] g have "gap w \<le> gap w2" by simp
    with None False W A show ?thesis by (simp add: writeBody_def Let_def)
  qed
qed

lemma mw_Close_gap: "gap w \<le> gap (snd (mw_Close L w))"
  using Write_gap_snd[of w "lineEnding @ ''--'' @ mw_Boundary L @ ''--'' @ lineEnding"]
  by (auto simp: mw_Close_def split: prod.splits)

lemma writeTo_alternative_gap: "gap w \<le> gap (snd (writeTo_alternative L e w))"
proof (cases "length (Text e) > 0 \<or> length (HTML e) > 0")
  case False
  then show ?thesis by (simp add: writeTo_alternative_def)
next
  case True
  define header where "header = Set Map.empty ''Content-Type''
                       (''multipart/alternative;'' @ lineEnding @ '' boundary='' @ sw_Boundary L
                          @ lineEnding)"
  define w1 where "w1 = writeHeader L w header"
  define st1 where "st1 = snd (writeBody L (header, False, w1) (Text e) ''text/plain; charset=UTF-8'')"
  define st2 where "st2 = snd (writeBody L st1 (HTML e) ''text/html; charset=UTF-8'')"
  obtain h1 b1 v1 where s1: "st1 = (h1, b1, v1)" by (cases st1) auto
  obtain h2 b2 v2 where s2: "st2 = (h2, b2, v2)" by (cases st2) auto
  have "gap w \<le> gap w1" unfolding w1_def by (rule writeHeader_gap)
  also have "\<dots> \<le> gap v1"
    using writeBody_gap[of w1 L header False "Text e" "''text/plain; charset=UTF-8''"]
    by (simp add: st1_def[symmetric] s1)
  also have "\<dots> \<le> gap v2"
    using writeBody_gap[of v1 L h1 b1 "HTML e" "''text/html; charset=UTF-8''"]
    by (simp add: s1[symmetric] st2_def[symmetric] s2)
  also have "\<dots> \<le> gap (snd (Write v2 (lineEnding @ ''--'' @ sw_Boundary L @ ''--'' @ lineEnding)))"
    by (rule Write_gap_snd)
  finally have g: "gap w \<le> gap (snd (Write v2 (lineEnding @ ''--'' @ sw_Boundary L @ ''--'' @ lineEnding)))" .
  have eq: "writeTo_alternative L e w =
      (case st2 of (header2, started, w2) \<Rightarrow>
         (case Write w2 (lineEnding @ ''--'' @ sw_Boundary L @ ''--'' @ lineEnding) of
            ((n, err), w3) \<Rightarrow> (err, w3)))"
    using True unfolding st2_def st1_def w1_def header_def writeTo_alternative_def Let_def
    by simp
  show ?thesis
    unfolding eq s2 using g by (auto split: prod.splits)
qed

lemma chunkWriter_loop_step:
  assumes "p \<noteq> []"
  shows "chunkWriter_loop c p n =
     (if chunk_m c p < 0 then None
      else case Write (chunk_w c) (take (nat (chunk_m c p)) p) of
        ((m, err), w1) \<Rightarrow>
          (case err of
             Some e \<Rightarrow> Some ((n + int m, Some e), c\<lparr>chunk_w := w1, chunk_n := chunk_n c + int m\<rparr>)
           | None \<Rightarrow>
               if chunk_n c + int m = maxLineLength
               then (case io_WriteString w1 lineEnding of
                       ((k, Some e), w2) \<Rightarrow>
                         Some ((n + int m, Some e), c\<lparr>chunk_w := w2, chunk_n := chunk_n c + int m\<rparr>)
                     | ((k, None), w2) \<Rightarrow>
                         chunkWriter_loop (c\<lparr>chunk_w := w2, chunk_n := 0\<rparr>) (drop m p) (n + int m))
               else chunkWriter_loop (c\<lparr>chunk_w := w1, chunk_n := chunk_n c + int m\<rparr>)
                      (drop m p) (n + int m)))"
  using assms
  by (subst chunkWriter_loop.simps)
     (auto simp: chunk_m_def Let_def split: prod.splits option.splits)

lemma chunk_m_pos: "p \<noteq> [] \<Longrightarrow> \<not> chunk_m c p < 0 \<Longrightarrow> 0 < chunk_m c p"
  by (auto simp: chunk_m_def Let_def maxLineLength_def split: if_splits)

lemma chunkWriter_loop_gap:
  "chunkWriter_loop c p n = Some (r, c1) \<Longrightarrow> gap (chunk_w c) \<le> gap (chunk_w c1)"
proof (induction "length p" arbitrary: c p n rule: less_induct)
  case less
  show ?case
  proof (cases "p = []")
    case True
    with less.prems show ?thesis by simp
  next
    case False
    note step = chunkWriter_loop_step[OF False, of c n]
    show ?thesis
    proof (cases "chunk_m c p < 0")
      case True
      with step less.prems show ?thesis by simp
    next
      case nonneg: False
      from chunk_m_pos[OF False nonneg] have pos: "0 < chunk_m c p" .
      obtain m err w1 where W: "Write (chunk_w c) (take (nat (chunk_m c p)) p) = ((m, err), w1)"
        by (cases "Write (chunk_w c) (take (nat (chunk_m c p)) p)") auto
      from Write_gap[OF W] have g1: "gap (chunk_w c) \<le> gap w1" .
      show ?thesis
      proof (cases err)
        case (Some e)
        with step nonneg W less.prems g1 show ?thesis by auto
      next
        case None
        with W have "m = length (take (nat (chunk_m c p)) p)" by (auto dest: Write_ok_length)
        with pos False have mpos: "0 < m" by (cases p) auto
        then have shorter: "length (drop m p) < length p" using False by simp
        show ?thesis
        proof (cases "chunk_n c + int m = maxLineLength")
          case False
          with step nonneg W None less.prems
          have "chunkWriter_loop (c\<lparr>chunk_w := w1, chunk_n := chunk_n c + int m\<rparr>)
                      (drop m p) (n + int m) = Some (r, c1)" by simp
          from less.hyps[OF shorter this] g1 show ?thesis by simp
        next
          case True
          obtain k e2 w2 where S: "io_WriteString w1 lineEnding = ((k, e2), w2)"
            by (cases "io_WriteString w1 lineEnding") auto
          from io_WriteString_gap[OF S] g1 have g2: "gap (chunk_w c) \<le> gap w2" by simp
          show ?thesis
          proof (cases e2)
            case (Some e)
            with step nonneg W None True S less.prems g2 show ?thesis by auto
          next
            case N2: None
            with step nonneg W None True S less.prems
            have "chunkWriter_loop (c\<lparr>chunk_w := w2, chunk_n := 0\<rparr>) (drop m p) (n + int m)
                    = Some (r, c1)" by simp
            from less.hyps[OF shorter this] g2 show ?thesis by simp
          qed
        qed
      qed
    qed
  qed
qed

lemma chunkWriter_Write_gap:
  "chunkWriter_Write c p = Some (r, c1) \<Longrightarrow> gap (chunk_w c) \<le> gap (chunk_w c1)"
  by (auto simp: chunkWriter_Write_def split: option.splits dest: chunkWriter_loop_gap)

lemma chunkWriter_writes_gap:
  "chunkWriter_writes c ps = Some (r, c1) \<Longrightarrow> gap (chunk_w c) \<le> gap (chunk_w c1)"
proof (induction ps arbitrary: c r)
  case Nil
  then show ?case by simp
next
  case (Cons p ps)
  from Cons.prems obtain n e c2 where W: "chunkWriter_Write c p = Some ((n, e), c2)"
    by (cases "chunkWriter_Write c p") auto
  from chunkWriter_Write_gap[OF W] have g: "gap (chunk_w c) \<le> gap (chunk_w c2)" .
  show ?case
  proof (cases e)
    case (Some x)
    with Cons.prems W g show ?thesis by simp
  next
    case None
    with Cons.prems W obtain r2 where "chunkWriter_writes c2 ps = Some (r2, c1)"
      by (auto split: option.splits prod.splits)
    from Cons.IH[OF this] g show ?thesis by simp
  qed
qed

lemma chunkWriter_Close_gap:
  "chunkWriter_Close c = (err, c1) \<Longrightarrow> gap (chunk_w c) \<le> gap (chunk_w c1)"
  by (auto simp: chunkWriter_Close_def split: option.splits prod.splits dest: io_WriteString_gap)

lemma enc_Write_gap:
  "enc_Write L (en, cw) p = Some (err, (en1, cw1)) \<Longrightarrow> gap (chunk_w cw) \<le> gap (chunk_w cw1)"
  by (auto simp: enc_Write_def split: option.splits prod.splits dest: chunkWriter_writes_gap)

lemma enc_Close_gap:
  "enc_Close L (en, cw) = Some (err, (en1, cw1)) \<Longrightarrow> gap (chunk_w cw) \<le> gap (chunk_w cw1)"
  by (auto simp: enc_Close_def split: option.splits prod.splits if_splits dest: chunkWriter_Write_gap)

declare io_Copy_enc.simps [simp del]

lemma io_Copy_enc_gap:
  "io_Copy_enc L r (en, cw) = Some (err, (en1, cw1)) \<Longrightarrow> gap (chunk_w cw) \<le> gap (chunk_w cw1)"
proof (induction "pending r" arbitrary: r en cw rule: less_induct)
  case less
  obtain b er r1 where R: "Read r 32768 = ((b, er), r1)" by (cases "Read r 32768") auto
  define W where "W = (if length b > 0 then enc_Write L (en, cw) b else Some (None, (en, cw)))"
  have step: "io_Copy_enc L r (en, cw) =
      (case W of
         None \<Rightarrow> None
       | Some (Some ew, st1) \<Rightarrow> Some (Some ew, st1)
       | Some (None, st1) \<Rightarrow>
           (case er of
              Some e \<Rightarrow> Some (if e = EOF then None else Some e, st1)
            | None \<Rightarrow> io_Copy_enc L r1 st1))"
    unfolding W_def by (subst io_Copy_enc.simps) (simp add: R)
  from less.prems step obtain ew en2 cw2 where W2: "W = Some (ew, (en2, cw2))"
    by (cases W) (auto split: option.splits)
  have g: "gap (chunk_w cw) \<le> gap (chunk_w cw2)"
    using W2 enc_Write_gap[of L en cw b ew en2 cw2] by (auto simp: W_def split: if_splits)
  show ?case
  proof (cases ew)
    case (Some x)
    with step W2 less.prems g show ?thesis by simp
  next
    case None
    show ?thesis
    proof (cases er)
      case (Some e)
      with step W2 None less.prems g show ?thesis by simp
    next
      case N: None
      with R have "pending r1 < pending r" using Read_progress[of 32768 r b r1] by simp
      moreover from step W2 None N less.prems
      have "io_Copy_enc L r1 (en2, cw2) = Some (err, (en1, cw1))" by simp
      ultimately show ?thesis using less.hyps g by fastforce
    qed
  qed
qed

lemma attach_loop_gap:
  "attach_loop L as started (en, cw) = Some (err, (en1, cw1)) \<Longrightarrow>
   gap (chunk_w cw) \<le> gap (chunk_w cw1)"
proof (induction as arbitrary: started en cw)
  case Nil
  then show ?case by simp
next
  case (Cons a as)
  obtain n e w1 where W: "Write (unpart (chunk_w cw))
        (CreatePart_bytes L (mw_Boundary L) started (Header a)) = ((n, e), w1)"
    by (cases "Write (unpart (chunk_w cw)) (CreatePart_bytes L (mw_Boundary L) started (Header a))") auto
  from Write_gap[OF W] have g1: "gap (chunk_w cw) \<le> gap w1" by simp
  show ?case
  proof (cases e)
    case (Some x)
    with Cons.prems W g1 show ?thesis by auto
  next
    case None
    with Cons.prems W obtain e2 en2 cw2 where
      C: "io_Copy_enc L (Body a) (en, cw\<lparr>chunk_w := ToPart w1\<rparr>) = Some (e2, (en2, cw2))"
      by (cases "io_Copy_enc L (Body a) (en, cw\<lparr>chunk_w := ToPart w1\<rparr>)") auto
    from io_Copy_enc_gap[OF C] g1 have g2: "gap (chunk_w cw) \<le> gap (chunk_w cw2)" by simp
    show ?thesis
    proof (cases e2)
      case (Some x)
      with Cons.prems W None C g2 show ?thesis by auto
    next
      case N: None
      with Cons.prems W None C have "attach_loop L as True (en2, cw2) = Some (err, (en1, cw1))"
        by simp
      from Cons.IH[OF this] g2 show ?thesis by simp
    qed
  qed
qed

lemma writeTo_attachments_gap:
  "writeTo_attachments L e w = Some (err, w1) \<Longrightarrow> gap w \<le> gap w1"
proof (cases "length (Attachments e) > 0")
  case False
  assume "writeTo_attachments L e w = Some (err, w1)"
  with False show ?thesis by (simp add: writeTo_attachments_def)
next
  case True
  assume A: "writeTo_attachments L e w = Some (err, w1)"
  let ?cw = "\<lparr>chunk_w = ToPart w, chunk_n = 0, chunk_err = None\<rparr>"
  let ?en = "\<lparr>enc_buf = [], enc_err = None\<rparr>"
  from A True obtain e1 en1 cw1 where
    L1: "attach_loop L (Attachments e) False (?en, ?cw) = Some (e1, (en1, cw1))"
    by (cases "attach_loop L (Attachments e) False (?en, ?cw)")
       (auto simp: writeTo_attachments_def Let_def)
  from attach_loop_gap[OF L1] have g1: "gap w \<le> gap (chunk_w cw1)" by simp
  show ?thesis
  proof (cases e1)
    case (Some x)
    with A True L1 g1 show ?thesis by (auto simp: writeTo_attachments_def Let_def)
  next
    case None
    with A True L1 obtain e2 en2 cw2 where
      C: "enc_Close L (en1, cw1) = Some (e2, (en2, cw2))"
      by (cases "enc_Close L (en1, cw1)") (auto simp: writeTo_attachments_def Let_def)
    from enc_Close_gap[OF C] g1 have g2: "gap w \<le> gap (chunk_w cw2)" by simp
    show ?thesis
    proof (cases e2)
      case (Some x)
      with A True L1 None C g2 show ?thesis by (auto simp: writeTo_attachments_def Let_def)
    next
      case N: None
      obtain e3 cw3 where K: "chunkWriter_Close cw2 = (e3, cw3)"
        by (cases "chunkWriter_Close cw2") auto
      from chunkWriter_Close_gap[OF K] g2 have "gap w \<le> gap (chunk_w cw3)" by simp
      with A True L1 None C N K show ?thesis
        by (auto simp: writeTo_attachments_def Let_def split: option.splits)
    qed
  qed
qed

lemma io_WriteString_fresh_count:
  "fresh_count w k \<Longrightarrow> fresh_count (snd (io_WriteString w p)) k
     \<and> gap (snd (io_WriteString w p)) = gap w + int (length p)"
  by (cases w)
     (auto simp: fresh_count_def gap_def countWriter_WriteString_def sink_Write_def)

lemma writeHeader_vals_fresh_count:
  "fresh_count w k \<Longrightarrow> fresh_count (writeHeader_vals L w field vals) k"
  by (induction vals arbitrary: w) (auto simp: Let_def io_WriteString_fresh_count)

lemma writeHeader_fields_fresh_count:
  "fresh_count w k \<Longrightarrow> fresh_count (writeHeader_fields L w header ks) k"
  by (induction ks arbitrary: w) (auto simp: writeHeader_vals_fresh_count)

lemma writeHeader_fresh_count:
  "fresh_count w k \<Longrightarrow> fresh_count (writeHeader L w header) k"
  by (simp add: writeHeader_def writeHeader_fields_fresh_count)

lemma writeTo_gap:
  assumes "msgHeaders L e = Inr hdrs" and "room s = None"
    and "writeTo L e (ToCount \<lparr>count_w = s, count_n = 0\<rparr>) = Some (err, wz)"
  shows "int (length (received s)) + 2 \<le> gap wz"
proof -
  let ?w = "ToCount \<lparr>count_w = s, count_n = 0\<rparr>"
  define hdrs1 where "hdrs1 = Set hdrs ''Content-Type''
                        (''multipart/mixed;'' @ lineEnding @ '' boundary='' @ mw_Boundary L)"
  define w1 where "w1 = writeHeader L ?w hdrs1"
  define w2 where "w2 = snd (io_WriteString w1 lineEnding)"
  define w3 where "w3 = snd (Write w2 (''--'' @ mw_Boundary L @ lineEnding))"
  have eq: "writeTo L e ?w =
      (case writeTo_alternative L e w3 of
         (Some err, w4) \<Rightarrow> Some (Some err, w4)
       | (None, w4) \<Rightarrow>
           (case writeTo_attachments L e w4 of
              None \<Rightarrow> None
            | Some (Some err, w5) \<Rightarrow> Some (Some err, w5)
            | Some (None, w5) \<Rightarrow> Some (mw_Close L w5)))"
    unfolding w3_def w2_def w1_def hdrs1_def writeTo_def Let_def using assms(1) by simp
  have f0: "fresh_count ?w 0" using assms(2) by (simp add: fresh_count_def)
  have g0: "gap ?w = int (length (received s))" by (simp add: gap_def)
  have f1: "fresh_count w1 0" unfolding w1_def by (rule writeHeader_fresh_count[OF f0])
  have g1: "gap ?w \<le> gap w1" unfolding w1_def by (rule writeHeader_gap)
  have g2: "gap w2 = gap w1 + 2"
    unfolding w2_def using io_WriteString_fresh_count[OF f1, of lineEnding]
    by (simp add: lineEnding_def)
  have g3: "gap w2 \<le> gap w3" unfolding w3_def by (rule Write_gap_snd)
  obtain e4 w4 where A: "writeTo_alternative L e w3 = (e4, w4)"
    by (cases "writeTo_alternative L e w3") auto
  have g4: "gap w3 \<le> gap w4" using writeTo_alternative_gap[of w3 L e] A by simp
  have base: "int (length (received s)) + 2 \<le> gap w4" using g0 g1 g2 g3 g4 by simp
  show ?thesis
  proof (cases e4)
    case (Some x)
    with eq A assms(3) base show ?thesis by simp
  next
    case None
    with eq A assms(3) obtain e5 w5 where B: "writeTo_attachments L e w4 = Some (e5, w5)"
      by (cases "writeTo_attachments L e w4") auto
    from writeTo_attachments_gap[OF B] base have g5: "int (length (received s)) + 2 \<le> gap w5"
      by simp
    show ?thesis
    proof (cases e5)
      case (Some x)
      with eq A None B assms(3) g5 show ?thesis by simp
    next
      case N: None
      with eq A None B assms(3) have "mw_Close L w5 = (err, wz)" by simp
      with mw_Close_gap[of w5 L] g5 show ?thesis by simp
    qed
  qed
qed

text \<open>
  Claim C4. The count that \<open>WriteTo\<close> returns leaves out what \<open>writeTo\<close> writes with
  \<open>io.WriteString\<close>: \<open>countWriter.WriteString\<close> forwards to the sink without adding to
  \<open>c.n\<close>. The header block and the blank line after it go this way. On a sink that accepts
  every write, whenever \<open>WriteTo\<close> succeeds the sink has received at least two bytes more
  than the count returned (the blank line alone), where the claim asks for equality.
\<close>

theorem WriteTo_count_misses_header_bytes:
  assumes "room s = None" and "WriteTo L e s = Some ((n, None), s1)"
  shows "n + 2 \<le> int (length (received s1)) - int (length (received s))"
proof -
  from assms(2) obtain wz where
    w: "writeTo L e (ToCount \<lparr>count_w = s, count_n = 0\<rparr>) = Some (None, wz)"
       "n = counted wz" "s1 = sink_of wz"
    by (auto simp: WriteTo_def Let_def split: option.splits)
  obtain hdrs where h: "msgHeaders L e = Inr hdrs"
    using w(1) by (cases "msgHeaders L e") (auto simp: writeTo_def)
  from writeTo_gap[OF h assms(1) w(1)] w(2,3) show ?thesis
    by (simp add: gap_def)
qed

theorem WriteTo_count_misses_header_bytes_witness:
  "room \<lparr>received = [], room = None\<rparr> = None
   \<and> (\<exists>s1. WriteTo (fixture Map.empty (Source [] EOF) []) plain_message \<lparr>received = [], room = None\<rparr>
               = Some ((122, None), s1)
          \<and> length (received s1) = 392)"
proof -
  have "\<exists>s1. WriteTo (fixture Map.empty (Source [] EOF) []) plain_message \<lparr>received = [], room = None\<rparr>
               = Some ((122, None), s1) \<and> length (received s1) = 392"
    by (simp add: WriteTo_def writeTo_def msgHeaders_def messageID_def hex_def hexdigit_def
        fixture_def plain_message_def writeHeader_def writeTo_alternative_def writeBody_def
        writeTo_attachments_def mw_Close_def Set_def Index_def countWriter_Write_def
        countWriter_WriteString_def sink_Write_def lineEnding_def Let_def
        length_concat sum_list_replicate)
  then obtain s1 where
    s: "WriteTo (fixture Map.empty (Source [] EOF) []) plain_message \<lparr>received = [], room = None\<rparr>
          = Some ((122, None), s1)" "length (received s1) = 392"
    by blast
  from WriteTo_count_misses_header_bytes[OF _ s(1)] s show ?thesis by simp
qed

end
